theory Spec2Isabelle
  imports Main
begin

section \<open>JavaScript values handled by the converter\<close>

text \<open>
  A path segment of a spleen \<open>Target\<close> is a string or an array index.
  \<open>stringify\<close> is \<open>segment.toString()\<close>: the identity on strings, the decimal
  numeral of an index (as JavaScript prints a non-negative integer below \<open>10^21\<close>).
\<close>

datatype segment = SegStr string | SegNum nat

fun digits :: "nat \<Rightarrow> string" where
  "digits n =
     (if n < 10 then [''0123456789'' ! n]
      else digits (n div 10) @ [''0123456789'' ! (n mod 10)])"

declare digits.simps [simp del]

fun stringify :: "segment \<Rightarrow> string" where
  "stringify (SegStr s) = s"
| "stringify (SegNum n) = digits n"

text \<open>
  A \<open>Target\<close> instance of the spleen library, as far as the converter reads it: its
  \<open>path\<close>, its \<open>field\<close>, and the string its method \<open>toJsonPointer()\<close> returns
  (\<open>pointer\<close>). The library is not part of this repository, so \<open>field\<close> and
  \<open>pointer\<close> are taken as given with the target.
\<close>

record target =
  path :: "segment list"
  field :: string
  pointer :: string

text \<open>
  Values: the primitives, arrays, plain objects (ordered key/value lists, as the
  converter builds them), and the instances of the spleen classes \<open>Target\<close>,
  \<open>Like\<close> and \<open>Range\<close>. \<open>JLike v r\<close> is a \<open>Like\<close> whose property \<open>value\<close>
  is \<open>v\<close> and whose method \<open>toRegexString()\<close> returns \<open>r\<close>; \<open>JRange lo up\<close>
  is a \<open>Range\<close> with \<open>lower\<close> and \<open>upper\<close>. Numbers are carried through
  the conversion unchanged and are modelled as integers.
\<close>

datatype jsval =
    JUndefined
  | JNull
  | JNum int
  | JStr string
  | JBool bool
  | JArr "jsval list"
  | JObj "(string \<times> jsval) list"
  | JTarget target
  | JLike jsval string
  | JRange jsval jsval

text \<open>\<open>elv(v)\<close> of the elv package: the value is neither undefined nor null.\<close>

fun elv :: "jsval \<Rightarrow> bool" where
  "elv JUndefined = False"
| "elv JNull = False"
| "elv _ = True"

fun isTarget :: "jsval \<Rightarrow> bool" where
  "isTarget (JTarget t) = True"
| "isTarget _ = False"

fun isString :: "jsval \<Rightarrow> bool" where
  "isString (JStr s) = True"
| "isString _ = False"

section \<open>errors.js\<close>

datatype error =
    TypeError string
  | ConvertError string
  | DeniedFieldError string
  | InvalidTargetError string "segment list"
  | NonallowedFieldError string
  | RequiredFieldError string

definition msg_deniedField :: string where
  "msg_deniedField = ''Black listed field encountered: ''"

definition msg_invalidTarget :: string where
  "msg_invalidTarget = ''Invalid target encountered: ''"

definition msg_nonallowedField :: string where
  "msg_nonallowedField = ''Non-white listed field encountered: ''"

definition msg_requiredField :: string where
  "msg_requiredField = ''Missing required field: ''"

definition msg_convert :: string where
  "msg_convert = ''Invalid filter.  Unable to convert.''"

text \<open>
  The constructors of errors.js. \<open>ConvertError\<close> takes an optional message
  (\<open>elv.coalesce(message, msg.convert)\<close>); \<open>DeniedFieldError\<close>,
  \<open>NonallowedFieldError\<close> and \<open>RequiredFieldError\<close> keep the field as \<open>data\<close>;
  \<open>InvalidTargetError\<close> keeps \<open>target.toJsonPointer()\<close> (in its message) and
  \<open>target.path\<close> (as \<open>data\<close>). \<open>TypeError\<close> is the built-in one.
\<close>

definition new_ConvertError :: "string option \<Rightarrow> error" where
  "new_ConvertError message =
     ConvertError (case message of None \<Rightarrow> msg_convert | Some m \<Rightarrow> m)"

definition new_InvalidTargetError :: "target \<Rightarrow> error" where
  "new_InvalidTargetError t = InvalidTargetError (pointer t) (path t)"

fun error_name :: "error \<Rightarrow> string" where
  "error_name (TypeError m) = ''TypeError''"
| "error_name (ConvertError m) = ''ConvertError''"
| "error_name (DeniedFieldError f) = ''DeniedFieldError''"
| "error_name (InvalidTargetError p d) = ''InvalidTargetError''"
| "error_name (NonallowedFieldError f) = ''NonallowedFieldError''"
| "error_name (RequiredFieldError f) = ''RequiredFieldError''"

fun error_message :: "error \<Rightarrow> string" where
  "error_message (TypeError m) = m"
| "error_message (ConvertError m) = m"
| "error_message (DeniedFieldError f) = msg_deniedField @ f"
| "error_message (InvalidTargetError p d) = msg_invalidTarget @ p"
| "error_message (NonallowedFieldError f) = msg_nonallowedField @ f"
| "error_message (RequiredFieldError f) = msg_requiredField @ f"

text \<open>The keys of \<open>module.exports\<close> of errors.js.\<close>

definition errors_exports :: "string list" where
  "errors_exports =
     [''ConvertError'', ''DeniedFieldError'', ''InvalidTargetError'',
      ''NonallowedFieldError'', ''RequiredFieldError'']"

section \<open>strategy.js\<close>

definition argSettingsRequired :: string where
  "argSettingsRequired = ''Argument \"settings\" is required''"

definition argSettingsObj :: string where
  "argSettingsObj = ''Argument \"settings\" must be an object''"

definition argSettingsAllowDeny :: string where
  "argSettingsAllowDeny = ''Argument \"settings\" cannot have by \"allow\" and \"deny\"''"

text \<open>
  The loop of \<open>createTargetSet\<close>: every member must be a string, the first one that
  is not throws.
\<close>

fun createTargetSet_loop :: "string \<Rightarrow> jsval list \<Rightarrow> string set \<Rightarrow> error + string set" where
  "createTargetSet_loop name [] acc = Inr acc"
| "createTargetSet_loop name (JStr val # vs) acc = createTargetSet_loop name vs (insert val acc)"
| "createTargetSet_loop name (v # vs) acc =
     Inl (TypeError (''Argument \"settings.'' @ name @ '' must contain strings''))"

definition createTargetSet :: "jsval \<Rightarrow> string \<Rightarrow> error + string set" where
  "createTargetSet v name =
     (if \<not> elv v then Inr {}
      else case v of
             JArr vs \<Rightarrow> createTargetSet_loop name vs {}
           | _ \<Rightarrow> Inl (TypeError (''Argument \"settings.'' @ name @ ''\" must be an array'')))"

record strategy =
  allow :: "string set"
  deny :: "string set"
  require :: "string list"

text \<open>
  The argument of \<open>new Strategy(settings)\<close>: null or undefined, a value that is not an
  object, or an object with the properties \<open>allow\<close> and \<open>deny\<close> (any value,
  \<open>JUndefined\<close> when absent) and \<open>require\<close>. The constructor stores \<open>require\<close>
  without looking at it; it is typed here as the README documents it, an optional array
  of strings.
\<close>

datatype settings =
    SNullish
  | SPrimitive
  | SObject jsval jsval "string list option"

fun new_Strategy :: "settings \<Rightarrow> error + strategy" where
  "new_Strategy SNullish = Inl (TypeError argSettingsRequired)"
| "new_Strategy SPrimitive = Inl (TypeError argSettingsObj)"
| "new_Strategy (SObject a d r) =
     (case createTargetSet a ''allow'' of
        Inl e \<Rightarrow> Inl e
      | Inr al \<Rightarrow>
          (case createTargetSet d ''deny'' of
             Inl e \<Rightarrow> Inl e
           | Inr de \<Rightarrow>
               if al \<noteq> {} \<and> de \<noteq> {} then Inl (TypeError argSettingsAllowDeny)
               else Inr \<lparr>allow = al, deny = de,
                          require = (case r of None \<Rightarrow> [] | Some rs \<Rightarrow> rs)\<rparr>))"

section \<open>convert.js\<close>

definition argFilter :: string where
  "argFilter = ''Argument \"filter\" must be an instance of spleen.Filter''"

definition argStrategy :: string where
  "argStrategy = ''Argument \"strategy\" must be an instance of Strategy''"

subsection \<open>The filter tree\<close>

record clause =
  subject :: jsval
  operator :: string
  object :: jsval

text \<open>
  A \<open>Filter\<close> has \<open>statements\<close>; a statement has a \<open>conjunctive\<close> (a string:
  \<open>and\<close>, \<open>or\<close>, empty on the first statement of a parsed filter) and a
  \<open>value\<close>, which is a \<open>Filter\<close>, a \<open>Clause\<close>, or anything else. The
  \<open>operator\<close> of a clause is the string \<open>operator.type\<close>.
\<close>

datatype filter = Filter (statements: "statement list")
and statement = Statement (conjunctive: string) (svalue: stmt_value)
and stmt_value = VFilter filter | VClause clause | VOther jsval

subsection \<open>invalidTarget\<close>

text \<open>
  The regular expression \<open>invalidTarget\<close>: one of twenty characters, or two or more
  hyphens in a row. \<open>test\<close> looks for a match anywhere in the segment.
\<close>

definition illegal_chars :: "char list" where
  "illegal_chars = ''\"{};,[]:()'' @ [CHR 0x27] @ ''*>#~@&%?`''"

fun has_illegal_char :: "string \<Rightarrow> bool" where
  "has_illegal_char [] = False"
| "has_illegal_char (c # cs) = (c \<in> set illegal_chars \<or> has_illegal_char cs)"

fun has_hyphens :: "string \<Rightarrow> bool" where
  "has_hyphens (a # b # cs) = ((a = CHR ''-'' \<and> b = CHR ''-'') \<or> has_hyphens (b # cs))"
| "has_hyphens cs = False"

definition invalidTarget :: "string \<Rightarrow> bool" where
  "invalidTarget s = (has_illegal_char s \<or> has_hyphens s)"

subsection \<open>Fragments\<close>

definition not :: "jsval \<Rightarrow> jsval" where
  "not dsl = JObj [(''bool'', JObj [(''must_not'', dsl)])]"

fun scriptOperator :: "string \<Rightarrow> error + string" where
  "scriptOperator ty =
     (if ty = ''eq'' then Inr ''==''
      else if ty = ''neq'' then Inr ''!=''
      else if ty = ''gt'' then Inr ''>''
      else if ty = ''gte'' then Inr ''>=''
      else if ty = ''lt'' then Inr ''<''
      else if ty = ''lte'' then Inr ''<=''
      else Inl (new_ConvertError None))"

definition scriptLiterals :: "clause \<Rightarrow> error + jsval" where
  "scriptLiterals c =
     (case scriptOperator (operator c) of
        Inl e \<Rightarrow> Inl e
      | Inr op \<Rightarrow>
          Inr (JObj [(''script'', JObj [(''script'', JObj
                 [(''source'', JStr (''params.subject '' @ op @ '' params.object'')),
                  (''params'', JObj [(''subject'', subject c), (''object'', object c)])])])]))"

definition normalizeClause :: "clause \<Rightarrow> clause" where
  "normalizeClause c =
     (if isTarget (object c) then
        \<lparr>subject = object c,
         operator =
           (if operator c = ''gt'' then ''lt''
            else if operator c = ''gte'' then ''lte''
            else if operator c = ''lt'' then ''gt''
            else if operator c = ''lte'' then ''gte''
            else operator c),
         object = subject c\<rparr>
      else c)"

subsection \<open>Builder\<close>

text \<open>
  The mutable part of a \<open>Builder\<close>: the set \<open>_fields\<close> (\<open>fieldsSet\<close>) and the
  array \<open>fields\<close> (\<open>fieldsArr\<close>).
  The filter and the strategy never change and are passed along.
\<close>

record builder =
  fieldsSet :: "string set"
  fieldsArr :: "string list"

definition new_Builder :: builder where
  "new_Builder = \<lparr>fieldsSet = {}, fieldsArr = []\<rparr>"

text \<open>The loop of \<open>_target\<close> over \<open>target.path\<close>, with the accumulated \<open>val\<close>.\<close>

fun target_loop :: "target \<Rightarrow> segment list \<Rightarrow> string \<Rightarrow> error + string" where
  "target_loop t [] val = Inr val"
| "target_loop t (seg # segs) val =
     (if invalidTarget (stringify seg) then Inl (new_InvalidTargetError t)
      else target_loop t segs ((if val \<noteq> [] then val @ ''.'' else val) @ stringify seg))"

definition register :: "string \<Rightarrow> builder \<Rightarrow> builder" where
  "register f b =
     (if f \<in> fieldsSet b then b
      else \<lparr>fieldsSet = insert f (fieldsSet b), fieldsArr = fieldsArr b @ [f]\<rparr>)"

text \<open>
  \<open>_target\<close>. Every caller in \<open>_build\<close> passes a \<open>Target\<close> instance; on any other
  value JavaScript fails reading its properties, which is kept as a \<open>TypeError\<close>.
\<close>

fun Builder_target :: "strategy \<Rightarrow> jsval \<Rightarrow> builder \<Rightarrow> error + (string \<times> builder)" where
  "Builder_target st (JTarget t) b =
     (if allow st \<noteq> {} \<and> field t \<notin> allow st then Inl (NonallowedFieldError (field t))
      else if deny st \<noteq> {} \<and> field t \<in> deny st then Inl (DeniedFieldError (field t))
      else (case target_loop t (path t) [] of
              Inl e \<Rightarrow> Inl e
            | Inr val \<Rightarrow> Inr (val, register (field t) b)))"
| "Builder_target st v b = Inl (TypeError [])"

text \<open>
  Most methods resolve the subject and put the resulting key into a fragment:
  \<open>with_key st c b frag\<close> is \<open>frag(this._target(clause.subject))\<close>.
\<close>

definition with_key ::
  "strategy \<Rightarrow> clause \<Rightarrow> builder \<Rightarrow> (string \<Rightarrow> jsval) \<Rightarrow> error + (jsval \<times> builder)" where
  "with_key st c b frag =
     (case Builder_target st (subject c) b of
        Inl e \<Rightarrow> Inl e
      | Inr (key, b') \<Rightarrow> Inr (frag key, b'))"

definition negate :: "error + (jsval \<times> builder) \<Rightarrow> error + (jsval \<times> builder)" where
  "negate r = (case r of Inl e \<Rightarrow> Inl e | Inr (dsl, b) \<Rightarrow> Inr (not dsl, b))"

definition Builder_scriptTargets ::
  "strategy \<Rightarrow> clause \<Rightarrow> builder \<Rightarrow> error + (jsval \<times> builder)" where
  "Builder_scriptTargets st c b =
     (case Builder_target st (subject c) b of
        Inl e \<Rightarrow> Inl e
      | Inr (sub, b1) \<Rightarrow>
          (case scriptOperator (operator c) of
             Inl e \<Rightarrow> Inl e
           | Inr op \<Rightarrow>
               (case Builder_target st (object c) b1 of
                  Inl e \<Rightarrow> Inl e
                | Inr (ob, b2) \<Rightarrow>
                    Inr (JObj [(''script'', JObj [(''script'',
                           JStr (''doc['' @ [CHR 0x27] @ sub @ [CHR 0x27] @ ''].value '' @ op
                                 @ '' doc['' @ [CHR 0x27] @ ob @ [CHR 0x27] @ ''].value''))])],
                         b2))))"

definition Builder_comparison ::
  "strategy \<Rightarrow> clause \<Rightarrow> builder \<Rightarrow> error + (jsval \<times> builder)" where
  "Builder_comparison st c b = with_key st c b (\<lambda>key. JObj [(key, object c)])"

definition Builder_exists ::
  "strategy \<Rightarrow> clause \<Rightarrow> builder \<Rightarrow> error + (jsval \<times> builder)" where
  "Builder_exists st c b =
     with_key st c b (\<lambda>key. JObj [(''exists'', JObj [(''field'', JStr key)])])"

definition Builder_range ::
  "strategy \<Rightarrow> clause \<Rightarrow> builder \<Rightarrow> error + (jsval \<times> builder)" where
  "Builder_range st c b =
     with_key st c b
       (\<lambda>key. JObj [(''range'', JObj [(key, JObj [(operator c, object c)])])])"

definition wrap :: "string \<Rightarrow> error + (jsval \<times> builder) \<Rightarrow> error + (jsval \<times> builder)" where
  "wrap k r = (case r of Inl e \<Rightarrow> Inl e | Inr (svo, b) \<Rightarrow> Inr (JObj [(k, svo)], b))"

definition Builder_eq :: "strategy \<Rightarrow> clause \<Rightarrow> builder \<Rightarrow> error + (jsval \<times> builder)" where
  "Builder_eq st c b =
     (if object c = JNull then negate (Builder_exists st c b)
      else wrap ''term'' (Builder_comparison st c b))"

definition Builder_neq :: "strategy \<Rightarrow> clause \<Rightarrow> builder \<Rightarrow> error + (jsval \<times> builder)" where
  "Builder_neq st c b =
     (if object c = JNull then Builder_exists st c b
      else negate (Builder_eq st c b))"

definition Builder_gt :: "strategy \<Rightarrow> clause \<Rightarrow> builder \<Rightarrow> error + (jsval \<times> builder)" where
  "Builder_gt st c b =
     (if object c = JNull then Builder_exists st c b else Builder_range st c b)"

definition Builder_gte :: "strategy \<Rightarrow> clause \<Rightarrow> builder \<Rightarrow> error + (jsval \<times> builder)" where
  "Builder_gte st c b =
     (if object c = JNull then Builder_exists st c b else Builder_range st c b)"

definition Builder_lt :: "strategy \<Rightarrow> clause \<Rightarrow> builder \<Rightarrow> error + (jsval \<times> builder)" where
  "Builder_lt st c b =
     (if object c = JNull then negate (Builder_exists st c b) else Builder_range st c b)"

definition Builder_lte :: "strategy \<Rightarrow> clause \<Rightarrow> builder \<Rightarrow> error + (jsval \<times> builder)" where
  "Builder_lte st c b =
     (if object c = JNull then negate (Builder_exists st c b) else Builder_range st c b)"

text \<open>
  \<open>_like\<close> strips one leading \<open>^\<close> (\<open>startsWith\<close>, \<open>slice(1)\<close>) and then one
  trailing \<open>$\<close> (\<open>endsWith\<close>, \<open>slice(0, -1)\<close>) from \<open>like.toRegexString()\<close>.
\<close>

definition strip_anchors :: "string \<Rightarrow> string" where
  "strip_anchors regex =
     (let r1 = (if regex \<noteq> [] \<and> hd regex = CHR ''^'' then tl regex else regex)
      in if r1 \<noteq> [] \<and> last r1 = CHR ''$'' then butlast r1 else r1)"

fun Builder_like :: "strategy \<Rightarrow> clause \<Rightarrow> builder \<Rightarrow> error + (jsval \<times> builder)" where
  "Builder_like st c b =
     (case object c of
        JLike (JStr v) regex \<Rightarrow>
          with_key st c b (\<lambda>key. JObj [(''regexp'', JObj [(key, JStr (strip_anchors regex))])])
      | _ \<Rightarrow> Inl (new_ConvertError None))"

definition Builder_nlike :: "strategy \<Rightarrow> clause \<Rightarrow> builder \<Rightarrow> error + (jsval \<times> builder)" where
  "Builder_nlike st c b = negate (Builder_like st c b)"

fun Builder_between :: "strategy \<Rightarrow> clause \<Rightarrow> builder \<Rightarrow> error + (jsval \<times> builder)" where
  "Builder_between st c b =
     (case object c of
        JRange lower upper \<Rightarrow>
          with_key st c b
            (\<lambda>key. JObj [(''range'', JObj [(key, JObj [(''gte'', lower), (''lte'', upper)])])])
      | _ \<Rightarrow> Inl (new_ConvertError None))"

definition Builder_nbetween :: "strategy \<Rightarrow> clause \<Rightarrow> builder \<Rightarrow> error + (jsval \<times> builder)" where
  "Builder_nbetween st c b = negate (Builder_between st c b)"

fun Builder_in :: "strategy \<Rightarrow> clause \<Rightarrow> builder \<Rightarrow> error + (jsval \<times> builder)" where
  "Builder_in st c b =
     (case object c of
        JArr vs \<Rightarrow> wrap ''terms'' (Builder_comparison st c b)
      | _ \<Rightarrow> Inl (new_ConvertError None))"

definition Builder_nin :: "strategy \<Rightarrow> clause \<Rightarrow> builder \<Rightarrow> error + (jsval \<times> builder)" where
  "Builder_nin st c b = negate (Builder_in st c b)"

text \<open>
  The part of the loop body of \<open>_build\<close> that handles a statement whose value is a
  \<open>Clause\<close>: both sides targets, neither, or exactly one (normalise, then dispatch on
  the operator). In the last branch \<open>msg.unknownOp\<close> is not defined in convert.js, so
  the message is the string \<open>undefined\<close> followed by the operator type.
\<close>

definition build_clause :: "strategy \<Rightarrow> clause \<Rightarrow> builder \<Rightarrow> error + (jsval \<times> builder)" where
  "build_clause st sval b =
     (let subIsTarget = isTarget (subject sval); objIsTarget = isTarget (object sval) in
      if subIsTarget \<and> objIsTarget then Builder_scriptTargets st sval b
      else if \<not> subIsTarget \<and> \<not> objIsTarget then
        (case scriptLiterals sval of Inl e \<Rightarrow> Inl e | Inr dsl \<Rightarrow> Inr (dsl, b))
      else
        (let c = normalizeClause sval; ty = operator c in
         if ty = ''eq'' then Builder_eq st c b
         else if ty = ''neq'' then Builder_neq st c b
         else if ty = ''gt'' then Builder_gt st c b
         else if ty = ''gte'' then Builder_gte st c b
         else if ty = ''lt'' then Builder_lt st c b
         else if ty = ''lte'' then Builder_lte st c b
         else if ty = ''like'' then Builder_like st c b
         else if ty = ''nlike'' then Builder_nlike st c b
         else if ty = ''between'' then Builder_between st c b
         else if ty = ''nbetween'' then Builder_nbetween st c b
         else if ty = ''in'' then Builder_in st c b
         else if ty = ''nin'' then Builder_nin st c b
         else Inl (new_ConvertError (Some (''undefined'' @ operator sval)))))"

definition bool_must :: "jsval list \<Rightarrow> jsval" where
  "bool_must must = JObj [(''bool'', JObj [(''must'', JArr must)])]"

definition bool_should :: "jsval list \<Rightarrow> jsval" where
  "bool_should groups = JObj [(''bool'', JObj [(''should'', JArr groups)])]"

text \<open>
  \<open>_build\<close>: \<open>build_loop\<close> is its \<open>for\<close> loop with the local variables
  \<open>groups\<close> and \<open>must\<close>; \<open>build_value\<close> is what the body pushes for one statement.
\<close>

fun Builder_build :: "strategy \<Rightarrow> filter \<Rightarrow> builder \<Rightarrow> error + (jsval \<times> builder)"
and build_loop ::
  "strategy \<Rightarrow> statement list \<Rightarrow> jsval list \<Rightarrow> jsval list \<Rightarrow> builder
     \<Rightarrow> error + (jsval \<times> builder)"
and build_value :: "strategy \<Rightarrow> stmt_value \<Rightarrow> builder \<Rightarrow> error + (jsval \<times> builder)"
where
  "Builder_build st (Filter ss) b = build_loop st ss [] [] b"
| "build_loop st [] groups must b =
     Inr (if groups = [] then bool_must must else bool_should (groups @ [bool_must must]), b)"
| "build_loop st (Statement cj sval # rest) groups must b =
     (let closing = (cj = ''or'' \<and> must \<noteq> []);
          groups' = (if closing then groups @ [bool_must must] else groups);
          must' = (if closing then [] else must)
      in case build_value st sval b of
           Inl e \<Rightarrow> Inl e
         | Inr (dsl, b') \<Rightarrow> build_loop st rest groups' (must' @ [dsl]) b')"
| "build_value st (VFilter f) b = Builder_build st f b"
| "build_value st (VClause c) b = build_clause st c b"
| "build_value st (VOther v) b = Inl (new_ConvertError None)"

text \<open>\<open>validate\<close>: the first required field that is not in \<open>_fields\<close> throws.\<close>

fun validate_loop :: "string list \<Rightarrow> builder \<Rightarrow> error + unit" where
  "validate_loop [] b = Inr ()"
| "validate_loop (req # rest) b =
     (if req \<notin> fieldsSet b then Inl (RequiredFieldError req) else validate_loop rest b)"

definition validate :: "strategy \<Rightarrow> builder \<Rightarrow> error + unit" where
  "validate st b = validate_loop (require st) b"

definition build :: "strategy \<Rightarrow> filter \<Rightarrow> builder \<Rightarrow> error + (jsval \<times> builder)" where
  "build st f b =
     (case Builder_build st f b of
        Inl e \<Rightarrow> Inl e
      | Inr (dsl, b') \<Rightarrow> Inr (JObj [(''filter'', dsl)], b'))"

text \<open>
  An argument of \<open>convert\<close> is an instance of the expected class or some other value.
  A parameter left out is \<open>Other JUndefined\<close>, which is when the default value of
  \<open>strategy\<close> applies.
\<close>

datatype 'a arg = Instance 'a | Other jsval

text \<open>\<open>defaultStrategy\<close> is the value of \<open>new Strategy({})\<close>.\<close>

definition defaultStrategy :: strategy where
  "defaultStrategy = \<lparr>allow = {}, deny = {}, require = []\<rparr>"

record converted =
  out_fields :: "string list"
  out_value :: jsval

definition convert :: "filter arg \<Rightarrow> strategy arg \<Rightarrow> error + converted" where
  "convert filter_arg strategy_arg =
     (let strategy_val =
            (case strategy_arg of Other JUndefined \<Rightarrow> Instance defaultStrategy | a \<Rightarrow> a)
      in case filter_arg of
           Other v \<Rightarrow> Inl (TypeError argFilter)
         | Instance f \<Rightarrow>
             (case strategy_val of
                Other v \<Rightarrow> Inl (TypeError argStrategy)
              | Instance st \<Rightarrow>
                  (case build st f new_Builder of
                     Inl e \<Rightarrow> Inl e
                   | Inr (v, b) \<Rightarrow>
                       (case validate st b of
                          Inl e \<Rightarrow> Inl e
                        | Inr u \<Rightarrow> Inr \<lparr>out_fields = fieldsArr b, out_value = v\<rparr>))))"

section \<open>Notions used to state the properties\<close>

text \<open>The keys of an object, and the value of one of its properties.\<close>

fun keys :: "jsval \<Rightarrow> string list" where
  "keys (JObj kvs) = map fst kvs"
| "keys v = []"

fun get :: "jsval \<Rightarrow> string \<Rightarrow> jsval" where
  "get (JObj kvs) k = (case map_of kvs k of None \<Rightarrow> JUndefined | Some v \<Rightarrow> v)"
| "get v k = JUndefined"

fun isTypeError :: "error + 'a \<Rightarrow> bool" where
  "isTypeError (Inl (TypeError m)) = True"
| "isTypeError r = False"

text \<open>
  The fragments that the loop of \<open>_build\<close> pushes for a sequence of statement
  values, in order, the builder being passed from one to the next.
\<close>

fun build_values ::
  "strategy \<Rightarrow> stmt_value list \<Rightarrow> builder \<Rightarrow> error + (jsval list \<times> builder)" where
  "build_values st [] b = Inr ([], b)"
| "build_values st (v # vs) b =
     (case build_value st v b of
        Inl e \<Rightarrow> Inl e
      | Inr (dsl, b1) \<Rightarrow>
          (case build_values st vs b1 of
             Inl e \<Rightarrow> Inl e
           | Inr (dsls, b2) \<Rightarrow> Inr (dsl # dsls, b2)))"

text \<open>
  The AND-groups of a sequence of statements, each given by its conjunction and its
  fragment: a group is a statement together with the statements that follow it up to the
  next one joined by \<open>or\<close>. The conjunction of the first statement joins it to nothing
  and plays no part.
\<close>

definition is_or :: "string \<times> 'a \<Rightarrow> bool" where
  "is_or s = (fst s = ''or'')"

function and_groups :: "(string \<times> 'a) list \<Rightarrow> 'a list list" where
  "and_groups [] = []"
| "and_groups (s # rest) =
     (snd s # map snd (takeWhile (\<lambda>x. \<not> is_or x) rest))
       # and_groups (dropWhile (\<lambda>x. \<not> is_or x) rest)"
  by pat_completeness auto
termination
  by (relation "measure length") (auto simp: less_Suc_eq_le length_dropWhile_le)

definition or_joined :: "statement list \<Rightarrow> nat" where
  "or_joined ss = length (filter (\<lambda>s. conjunctive s = ''or'') (tl ss))"

text \<open>The operators that \<open>scriptOperator\<close> knows.\<close>

definition script_operators :: "string list" where
  "script_operators = [''eq'', ''neq'', ''gt'', ''gte'', ''lt'', ''lte'']"

text \<open>The operator of a clause read from right to left.\<close>

fun invert_operator :: "string \<Rightarrow> string" where
  "invert_operator ty =
     (if ty = ''gt'' then ''lt''
      else if ty = ''lt'' then ''gt''
      else if ty = ''gte'' then ''lte''
      else if ty = ''lte'' then ''gte''
      else ty)"


text \<open>\<open>Array.prototype.join\<close> with the separator \<open>.\<close> on strings.\<close>

fun join_dot :: "string list \<Rightarrow> string" where
  "join_dot [] = []"
| "join_dot [x] = x"
| "join_dot (x # y # ys) = x @ ''.'' @ join_dot (y # ys)"

text \<open>A list without the later occurrences of its members.\<close>

fun first_occurrences :: "'a list \<Rightarrow> 'a list" where
  "first_occurrences [] = []"
| "first_occurrences (x # xs) = x # first_occurrences (filter (\<lambda>y. y \<noteq> x) xs)"

text \<open>
  The targets that a conversion resolves with \<open>_target\<close>, in the order of the walk: for a
  clause its subject and its object where they are targets, for a statement the targets
  of its value, for a filter those of its statements.
\<close>

fun side_targets :: "jsval \<Rightarrow> target list" where
  "side_targets (JTarget t) = [t]"
| "side_targets v = []"

definition clause_targets :: "clause \<Rightarrow> target list" where
  "clause_targets c = side_targets (subject c) @ side_targets (object c)"

fun filter_targets :: "filter \<Rightarrow> target list"
and statements_targets :: "statement list \<Rightarrow> target list"
and value_targets :: "stmt_value \<Rightarrow> target list"
where
  "filter_targets (Filter ss) = statements_targets ss"
| "statements_targets [] = []"
| "statements_targets (Statement cj sval # rest) = value_targets sval @ statements_targets rest"
| "value_targets (VFilter f) = filter_targets f"
| "value_targets (VClause c) = clause_targets c"
| "value_targets (VOther v) = []"

text \<open>The errors that the walk of the tree can throw.\<close>

fun walk_error :: "error \<Rightarrow> bool" where
  "walk_error (TypeError m) = False"
| "walk_error (RequiredFieldError f) = False"
| "walk_error e = True"

text \<open>The clauses of a filter tree, at any depth.\<close>

fun filter_clauses :: "filter \<Rightarrow> clause list"
and statements_clauses :: "statement list \<Rightarrow> clause list"
and value_clauses :: "stmt_value \<Rightarrow> clause list"
where
  "filter_clauses (Filter ss) = statements_clauses ss"
| "statements_clauses [] = []"
| "statements_clauses (Statement cj sval # rest) = value_clauses sval @ statements_clauses rest"
| "value_clauses (VFilter f) = filter_clauses f"
| "value_clauses (VClause c) = [c]"
| "value_clauses (VOther v) = []"

text \<open>
  A filter used as an example below: \<open>/foo eq 42 or 1 neq /foo and /bar/2 eq 2\<close>.
\<close>

definition foo :: target where
  "foo = \<lparr>path = [SegStr ''foo''], field = ''/foo'', pointer = ''/foo''\<rparr>"

definition bar_2 :: target where
  "bar_2 = \<lparr>path = [SegStr ''bar'', SegNum 2], field = ''/bar'', pointer = ''/bar/2''\<rparr>"


definition example_filter :: filter where
  "example_filter = Filter
     [Statement [] (VClause \<lparr>subject = JTarget foo, operator = ''eq'', object = JNum 42\<rparr>),
      Statement ''or'' (VClause \<lparr>subject = JNum 1, operator = ''neq'', object = JTarget foo\<rparr>),
      Statement ''and'' (VClause \<lparr>subject = JTarget bar_2, operator = ''eq'', object = JNum 2\<rparr>)]"

section \<open>The argument of createTargetSet\<close>

lemma createTargetSet_absent [simp]:
  "createTargetSet JUndefined name = Inr {}"
  "createTargetSet JNull name = Inr {}"
  by (simp_all add: createTargetSet_def)

lemma createTargetSet_array [simp]:
  "createTargetSet (JArr vs) name = createTargetSet_loop name vs {}"
  by (simp add: createTargetSet_def)

section \<open>Clauses with one target\<close>


lemma normalizeClause_keep:
  "\<not> isTarget x \<Longrightarrow>
   normalizeClause \<lparr>subject = s, operator = ty, object = x\<rparr> =
     \<lparr>subject = s, operator = ty, object = x\<rparr>"
  by (simp add: normalizeClause_def)

lemma build_clause_one_target:
  "\<not> isTarget x \<Longrightarrow>
   build_clause st \<lparr>subject = JTarget t, operator = ty, object = x\<rparr> b =
     (let c = \<lparr>subject = JTarget t, operator = ty, object = x\<rparr> in
      if ty = ''eq'' then Builder_eq st c b
      else if ty = ''neq'' then Builder_neq st c b
      else if ty = ''gt'' then Builder_gt st c b
      else if ty = ''gte'' then Builder_gte st c b
      else if ty = ''lt'' then Builder_lt st c b
      else if ty = ''lte'' then Builder_lte st c b
      else if ty = ''like'' then Builder_like st c b
      else if ty = ''nlike'' then Builder_nlike st c b
      else if ty = ''between'' then Builder_between st c b
      else if ty = ''nbetween'' then Builder_nbetween st c b
      else if ty = ''in'' then Builder_in st c b
      else if ty = ''nin'' then Builder_nin st c b
      else Inl (ConvertError (''undefined'' @ ty)))"
  by (simp add: build_clause_def normalizeClause_def Let_def new_ConvertError_def)

lemma build_clause_swapped:
  assumes "\<not> isTarget x"
  shows "build_clause st \<lparr>subject = x, operator = ty, object = JTarget t\<rparr> b =
         build_clause st \<lparr>subject = JTarget t, operator = invert_operator ty, object = x\<rparr> b"
proof -
  consider "ty = ''gt''" | "ty = ''gte''" | "ty = ''lt''" | "ty = ''lte''"
    | "ty \<noteq> ''gt'' \<and> ty \<noteq> ''gte'' \<and> ty \<noteq> ''lt'' \<and> ty \<noteq> ''lte''"
    by blast
  then show ?thesis
  proof cases
    case 5
    then have "invert_operator ty = ty" by simp
    with assms 5 show ?thesis
      by (simp add: build_clause_def normalizeClause_def Let_def del: invert_operator.simps)
  qed (use assms in \<open>simp_all add: build_clause_def normalizeClause_def Let_def\<close>)
qed


lemma with_key_target:
  "with_key st \<lparr>subject = JTarget t, operator = ty, object = x\<rparr> b frag =
     (case Builder_target st (JTarget t) b of
        Inl e \<Rightarrow> Inl e
      | Inr (key, b') \<Rightarrow> Inr (frag key, b'))"
  by (simp add: with_key_def)



lemmas clause_methods =
  Builder_eq_def Builder_neq_def Builder_gt_def Builder_gte_def Builder_lt_def Builder_lte_def
  Builder_exists_def Builder_comparison_def Builder_range_def negate_def wrap_def





lemma resolve_foo:
  "Builder_target defaultStrategy
     (JTarget \<lparr>path = [SegStr ''foo''], field = ''/foo'', pointer = ''/foo''\<rparr>) new_Builder =
   Inr (''foo'', \<lparr>fieldsSet = {''/foo''}, fieldsArr = [''/foo'']\<rparr>)"
  by (simp add: defaultStrategy_def new_Builder_def register_def invalidTarget_def
        illegal_chars_def)

lemma resolve_denied:
  "Builder_target \<lparr>allow = {}, deny = {''/foo''}, require = []\<rparr>
     (JTarget \<lparr>path = [SegStr ''foo''], field = ''/foo'', pointer = ''/foo''\<rparr>) new_Builder =
   Inl (DeniedFieldError ''/foo'')"
  by simp





section \<open>What a clause does to the builder\<close>

lemma clause_eta:
  "(c :: clause) = \<lparr>subject = subject c, operator = operator c, object = object c\<rparr>"
  by simp

lemma target_loop_error:
  "target_loop t segs val = Inl e \<Longrightarrow> e = new_InvalidTargetError t"
  by (induction t segs val rule: target_loop.induct) (auto split: if_splits)

lemma Builder_target_ok:
  "Builder_target st v b = Inr (key, b') \<Longrightarrow> \<exists>t. v = JTarget t \<and> b' = register (field t) b"
  by (cases v) (auto split: if_splits sum.splits)

lemma Builder_target_error:
  "Builder_target st (JTarget t) b = Inl e \<Longrightarrow> walk_error e"
  by (auto split: if_splits sum.splits dest!: target_loop_error simp: new_InvalidTargetError_def)

lemma scriptOperator_error:
  "scriptOperator ty = Inl e \<Longrightarrow> e = ConvertError msg_convert"
  by (auto split: if_splits simp: new_ConvertError_def)

lemma one_target_ok:
  assumes "\<not> isTarget x"
    and "build_clause st \<lparr>subject = JTarget t, operator = ty, object = x\<rparr> b = Inr (dsl, b')"
  shows "\<exists>key. Builder_target st (JTarget t) b = Inr (key, b')"
  using assms
  unfolding build_clause_one_target [OF assms(1)] Let_def clause_methods
    Builder_like.simps Builder_nlike_def Builder_between.simps Builder_nbetween_def
    Builder_in.simps Builder_nin_def with_key_target
  by (auto split: if_splits sum.splits prod.splits jsval.splits simp del: Builder_target.simps)

lemma one_target_error:
  assumes "\<not> isTarget x"
    and "build_clause st \<lparr>subject = JTarget t, operator = ty, object = x\<rparr> b = Inl e"
  shows "Builder_target st (JTarget t) b = Inl e \<or> (\<exists>m. e = ConvertError m)"
  using assms
  unfolding build_clause_one_target [OF assms(1)] Let_def clause_methods
    Builder_like.simps Builder_nlike_def Builder_between.simps Builder_nbetween_def
    Builder_in.simps Builder_nin_def with_key_target new_ConvertError_def
  by (auto split: if_splits sum.splits prod.splits jsval.splits simp del: Builder_target.simps)


lemma both_targets:
  "build_clause st \<lparr>subject = JTarget s, operator = ty, object = JTarget t\<rparr> b =
     Builder_scriptTargets st \<lparr>subject = JTarget s, operator = ty, object = JTarget t\<rparr> b"
  by (simp add: build_clause_def)

lemma both_literals:
  "\<not> isTarget x \<Longrightarrow> \<not> isTarget y \<Longrightarrow>
   build_clause st \<lparr>subject = x, operator = ty, object = y\<rparr> b =
     (case scriptLiterals \<lparr>subject = x, operator = ty, object = y\<rparr> of
        Inl e \<Rightarrow> Inl e
      | Inr dsl \<Rightarrow> Inr (dsl, b))"
  by (simp add: build_clause_def)

lemma isTarget_iff: "isTarget v \<longleftrightarrow> (\<exists>t. v = JTarget t)"
  by (cases v) simp_all

lemma side_targets_literal: "\<not> isTarget v \<Longrightarrow> side_targets v = []"
  by (cases v) simp_all

lemma build_clause_state:
  assumes "build_clause st c b = Inr (dsl, b')"
  shows "b' = fold register (map field (clause_targets c)) b"
proof -
  obtain x ty y where c: "c = \<lparr>subject = x, operator = ty, object = y\<rparr>"
    by (cases c) simp
  consider (tt) s t where "x = JTarget s" "y = JTarget t"
    | (tl) s where "x = JTarget s" "\<not> isTarget y"
    | (lt) t where "\<not> isTarget x" "y = JTarget t"
    | (ll) "\<not> isTarget x" "\<not> isTarget y"
    using isTarget_iff [of x] isTarget_iff [of y] by blast
  then show ?thesis
  proof cases
    case tt
    with assms show ?thesis
      unfolding c both_targets tt
      by (auto simp: Builder_scriptTargets_def clause_targets_def
            split: sum.splits prod.splits dest!: Builder_target_ok
            simp del: Builder_target.simps)
  next
    case tl
    from one_target_ok [OF tl(2)] assms tl show ?thesis
      unfolding c
      by (fastforce simp: clause_targets_def side_targets_literal dest!: Builder_target_ok
            simp del: Builder_target.simps)
  next
    case lt
    from assms have "build_clause st \<lparr>subject = JTarget t, operator = invert_operator ty,
        object = x\<rparr> b = Inr (dsl, b')"
      unfolding c lt(2) by (simp only: build_clause_swapped [OF lt(1)])
    from one_target_ok [OF lt(1) this] lt show ?thesis
      unfolding c
      by (auto simp: clause_targets_def side_targets_literal dest!: Builder_target_ok
            simp del: Builder_target.simps)
  next
    case ll
    with assms show ?thesis
      unfolding c
      by (auto simp: both_literals clause_targets_def side_targets_literal
            split: sum.splits)
  qed
qed

lemma build_clause_error:
  assumes "build_clause st c b = Inl e"
  shows "walk_error e"
proof -
  obtain x ty y where c: "c = \<lparr>subject = x, operator = ty, object = y\<rparr>"
    by (cases c) simp
  consider (tt) s t where "x = JTarget s" "y = JTarget t"
    | (tl) s where "x = JTarget s" "\<not> isTarget y"
    | (lt) t where "\<not> isTarget x" "y = JTarget t"
    | (ll) "\<not> isTarget x" "\<not> isTarget y"
    using isTarget_iff [of x] isTarget_iff [of y] by blast
  then show ?thesis
  proof cases
    case tt
    with assms show ?thesis
      unfolding c both_targets tt
      by (auto simp: Builder_scriptTargets_def
            split: sum.splits prod.splits
            dest!: Builder_target_error scriptOperator_error
            simp del: Builder_target.simps scriptOperator.simps)
  next
    case tl
    from assms have "build_clause st \<lparr>subject = JTarget s, operator = ty, object = y\<rparr> b = Inl e"
      unfolding c tl(1) .
    from one_target_error [OF tl(2) this] show ?thesis
      by (auto dest!: Builder_target_error simp del: Builder_target.simps)
  next
    case lt
    from assms have "build_clause st \<lparr>subject = JTarget t, operator = invert_operator ty,
        object = x\<rparr> b = Inl e"
      unfolding c lt(2) by (simp only: build_clause_swapped [OF lt(1)])
    from one_target_error [OF lt(1) this] show ?thesis
      by (auto dest!: Builder_target_error simp del: Builder_target.simps)
  next
    case ll
    with assms show ?thesis
      unfolding c
      by (auto simp: both_literals scriptLiterals_def
            split: sum.splits dest!: scriptOperator_error
            simp del: scriptOperator.simps)
  qed
qed


section \<open>What the walk does to the builder\<close>

lemma build_state:
  "Builder_build st f b = Inr (dsl, b') \<Longrightarrow>
     b' = fold register (map field (filter_targets f)) b"
  "build_loop st ss groups must b = Inr (dsl, b') \<Longrightarrow>
     b' = fold register (map field (statements_targets ss)) b"
  "build_value st v b = Inr (dsl, b') \<Longrightarrow>
     b' = fold register (map field (value_targets v)) b"
proof (induction st f b and st ss groups must b and st v b
         arbitrary: dsl b' and dsl b' and dsl b'
         rule: Builder_build_build_loop_build_value.induct)
  case (1 st ss b)
  then show ?case by simp
next
  case (2 st groups must b)
  then show ?case by simp
next
  case (3 st cj sval rest groups must b)
  from "3.prems" obtain d b1 where
    v: "build_value st sval b = Inr (d, b1)" and
    l: "build_loop st rest
          (if cj = ''or'' \<and> must \<noteq> [] then groups @ [bool_must must] else groups)
          ((if cj = ''or'' \<and> must \<noteq> [] then [] else must) @ [d]) b1 = Inr (dsl, b')"
    by (auto simp: Let_def split: sum.splits)
  from "3.IH"(1) [OF refl refl refl v]
  have b1: "b1 = fold register (map field (value_targets sval)) b" .
  from "3.IH"(2) [OF refl refl refl v refl l]
  have "b' = fold register (map field (statements_targets rest)) b1" .
  with b1 show ?case by simp
next
  case (4 st f b)
  then show ?case by simp
next
  case (5 st c b)
  then show ?case by (simp add: build_clause_state)
next
  case (6 st v b)
  then show ?case by simp
qed

lemma build_error:
  "Builder_build st f b = Inl e \<Longrightarrow> walk_error e"
  "build_loop st ss groups must b = Inl e \<Longrightarrow> walk_error e"
  "build_value st v b = Inl e \<Longrightarrow> walk_error e"
proof (induction st f b and st ss groups must b and st v b
         rule: Builder_build_build_loop_build_value.induct)
  case (3 st cj sval rest groups must b)
  from "3.prems" consider
    (first) "build_value st sval b = Inl e"
    | (later) d b1 where "build_value st sval b = Inr (d, b1)"
        "build_loop st rest
           (if cj = ''or'' \<and> must \<noteq> [] then groups @ [bool_must must] else groups)
           ((if cj = ''or'' \<and> must \<noteq> [] then [] else must) @ [d]) b1 = Inl e"
    by (auto simp: Let_def split: sum.splits)
  then show ?case
  proof cases
    case first
    then show ?thesis by (rule "3.IH"(1) [OF refl refl refl])
  next
    case later
    from "3.IH"(2) [OF refl refl refl later(1) refl later(2)] show ?thesis .
  qed
next
  case (5 st c b)
  then show ?case by (simp add: build_clause_error)
next
  case (6 st v b)
  then show ?case by (auto simp: new_ConvertError_def)
qed simp_all

section \<open>The list of fields\<close>

lemma first_occurrences_set: "set (first_occurrences xs) = set xs"
  by (induction xs rule: first_occurrences.induct) auto

lemma first_occurrences_distinct: "distinct (first_occurrences xs)"
  by (induction xs rule: first_occurrences.induct) (auto simp: first_occurrences_set)

lemma fold_register:
  "fieldsSet b = set (fieldsArr b) \<Longrightarrow>
   fieldsSet (fold register fs b) = set (fieldsArr b) \<union> set fs \<and>
   fieldsArr (fold register fs b) =
     fieldsArr b @ first_occurrences (filter (\<lambda>f. f \<notin> set (fieldsArr b)) fs)"
proof (induction fs arbitrary: b)
  case Nil
  then show ?case by simp
next
  case (Cons f fs)
  show ?case
  proof (cases "f \<in> fieldsSet b")
    case True
    then have "register f b = b" by (simp add: register_def)
    with Cons True show ?thesis by auto
  next
    case False
    let ?b1 = "register f b"
    from False Cons.prems have s1: "fieldsSet ?b1 = set (fieldsArr ?b1)"
      and a1: "fieldsArr ?b1 = fieldsArr b @ [f]"
      by (simp_all add: register_def)
    have flt: "filter (\<lambda>g. g \<notin> set (fieldsArr b @ [f])) fs =
               filter (\<lambda>y. y \<noteq> f) (filter (\<lambda>g. g \<notin> set (fieldsArr b)) fs)"
      by (induction fs) auto
    from Cons.IH [OF s1] a1 flt False Cons.prems show ?thesis
      by auto
  qed
qed

lemma fold_register_new:
  "fieldsArr (fold register fs new_Builder) = first_occurrences fs"
  "fieldsSet (fold register fs new_Builder) = set fs"
  using fold_register [of new_Builder fs] by (simp_all add: new_Builder_def)

section \<open>Conversions\<close>

lemmas evaluate =
  convert_def build_def validate_def defaultStrategy_def new_Builder_def build_clause_def
  normalizeClause_def clause_methods with_key_def register_def invalidTarget_def
  illegal_chars_def bool_must_def bool_should_def Let_def not_def

lemma convert_example:
  "convert (Instance example_filter) (Other JUndefined) =
   Inr \<lparr>out_fields = [''/foo'', ''/bar''],
        out_value = JObj [(''filter'', JObj [(''bool'', JObj [(''should'', JArr
          [JObj [(''bool'', JObj [(''must'', JArr
             [JObj [(''term'', JObj [(''foo'', JNum 42)])]])])],
           JObj [(''bool'', JObj [(''must'', JArr
             [JObj [(''bool'', JObj [(''must_not'', JObj [(''term'', JObj [(''foo'', JNum 1)])])])],
              JObj [(''term'', JObj [(''bar.2'', JNum 2)])]])])]])])])]\<rparr>"
  by (simp add: example_filter_def foo_def bar_2_def evaluate digits.simps)

lemma convert_ok:
  assumes "convert (Instance f) sarg = Inr r"
  obtains st dsl b where
    "sarg = Instance st \<or> (sarg = Other JUndefined \<and> st = defaultStrategy)"
    "Builder_build st f new_Builder = Inr (dsl, b)"
    "validate st b = Inr ()"
    "r = \<lparr>out_fields = fieldsArr b, out_value = JObj [(''filter'', dsl)]\<rparr>"
proof (cases sarg)
  case (Instance st)
  with assms that [of st] show ?thesis
    by (auto simp: convert_def build_def split: sum.splits)
next
  case (Other v)
  with assms have "v = JUndefined"
    by (cases v) (simp_all add: convert_def)
  with Other assms that [of defaultStrategy] show ?thesis
    by (auto simp: convert_def build_def split: sum.splits)
qed

lemma convert_instance:
  "convert (Instance f) (Instance st) =
     (case Builder_build st f new_Builder of
        Inl e \<Rightarrow> Inl e
      | Inr (dsl, b) \<Rightarrow>
          (case validate st b of
             Inl e \<Rightarrow> Inl e
           | Inr u \<Rightarrow> Inr \<lparr>out_fields = fieldsArr b, out_value = JObj [(''filter'', dsl)]\<rparr>))"
  by (simp add: convert_def build_def split: sum.splits)

lemma walk_clauses:
  "Builder_build st f b = Inr r \<Longrightarrow> c \<in> set (filter_clauses f) \<Longrightarrow>
     \<exists>b0 r0. build_clause st c b0 = Inr r0"
  "build_loop st ss groups must b = Inr r \<Longrightarrow> c \<in> set (statements_clauses ss) \<Longrightarrow>
     \<exists>b0 r0. build_clause st c b0 = Inr r0"
  "build_value st v b = Inr r \<Longrightarrow> c \<in> set (value_clauses v) \<Longrightarrow>
     \<exists>b0 r0. build_clause st c b0 = Inr r0"
proof (induction st f b and st ss groups must b and st v b
         arbitrary: r and r and r
         rule: Builder_build_build_loop_build_value.induct)
  case (3 st cj sval rest groups must b)
  from "3.prems"(1) obtain d b1 where
    v: "build_value st sval b = Inr (d, b1)" and
    l: "build_loop st rest
          (if cj = ''or'' \<and> must \<noteq> [] then groups @ [bool_must must] else groups)
          ((if cj = ''or'' \<and> must \<noteq> [] then [] else must) @ [d]) b1 = Inr r"
    by (auto simp: Let_def split: sum.splits)
  from "3.prems"(2) consider "c \<in> set (value_clauses sval)" | "c \<in> set (statements_clauses rest)"
    by auto
  then show ?case
  proof cases
    case 1
    from "3.IH"(1) [OF refl refl refl v 1] show ?thesis .
  next
    case 2
    from "3.IH"(2) [OF refl refl refl v refl l 2] show ?thesis .
  qed
next
  case (5 st c' b)
  then have "build_clause st c b = Inr r" by simp
  then show ?case by blast
qed simp_all

lemma convert_fails_with_clause:
  assumes "c \<in> set (filter_clauses f)" "\<And>st b. \<exists>e. build_clause st c b = Inl e"
  shows "\<exists>e. convert (Instance f) sarg = Inl e"
proof (cases "convert (Instance f) sarg")
  case (Inl e)
  then show ?thesis by blast
next
  case (Inr res)
  then obtain st dsl b where "Builder_build st f new_Builder = Inr (dsl, b)"
    by (rule convert_ok)
  from walk_clauses(1) [OF this assms(1)] assms(2) show ?thesis
    by (metis sum.distinct(1))
qed


lemma convert_first_clause_fails:
  assumes "\<And>b. build_clause st c b = Inl e"
  shows "convert (Instance (Filter (Statement cj (VClause c) # rest))) (Instance st) = Inl e"
  using assms by (simp add: convert_instance Let_def)

lemma convert_first_clause_error:
  assumes "build_clause st c new_Builder = Inl e"
  shows "convert (Instance (Filter (Statement cj (VClause c) # rest))) (Instance st) = Inl e"
  using assms by (simp add: convert_instance Let_def)

text \<open>
  C6. After a successful conversion the returned \<open>fields\<close> are the fields of the targets
  resolved during the walk, each once, in the order of their first occurrence, whether the
  target was the subject or the object and however often the field occurs. Resolving a
  target appends its field when the builder does not have it yet and changes nothing
  otherwise.
\<close>

theorem fields_first_occurrence:
  assumes "convert (Instance f) sarg = Inr r"
  shows "out_fields r = first_occurrences (map field (filter_targets f)) \<and>
         distinct (out_fields r) \<and>
         set (out_fields r) = field ` set (filter_targets f) \<and>
         (\<forall>st t b key b'. Builder_target st (JTarget t) b = Inr (key, b') \<longrightarrow>
            fieldsArr b' = (if field t \<in> fieldsSet b then fieldsArr b else fieldsArr b @ [field t]) \<and>
            fieldsSet b' = insert (field t) (fieldsSet b))"
proof -
  from assms obtain st dsl b where
    walk: "Builder_build st f new_Builder = Inr (dsl, b)" and
    r: "r = \<lparr>out_fields = fieldsArr b, out_value = JObj [(''filter'', dsl)]\<rparr>"
    by (rule convert_ok)
  from build_state(1) [OF walk]
  have "fieldsArr b = first_occurrences (map field (filter_targets f))"
    by (simp add: fold_register_new)
  with r have fields: "out_fields r = first_occurrences (map field (filter_targets f))"
    by simp
  have reg: "fieldsArr b' = (if field t \<in> fieldsSet b then fieldsArr b else fieldsArr b @ [field t]) \<and>
      fieldsSet b' = insert (field t) (fieldsSet b)"
    if "Builder_target st (JTarget t) b = Inr (key, b')" for st t b key b'
    using Builder_target_ok [OF that] by (auto simp: register_def)
  from fields reg show ?thesis
    by (simp add: first_occurrences_distinct first_occurrences_set del: Builder_target.simps)
qed

theorem fields_first_occurrence_witness:
  "convert (Instance example_filter) (Other JUndefined) =
     Inr \<lparr>out_fields = [''/foo'', ''/bar''],
        out_value = JObj [(''filter'', JObj [(''bool'', JObj [(''should'', JArr
          [JObj [(''bool'', JObj [(''must'', JArr
             [JObj [(''term'', JObj [(''foo'', JNum 42)])]])])],
           JObj [(''bool'', JObj [(''must'', JArr
             [JObj [(''bool'', JObj [(''must_not'', JObj [(''term'', JObj [(''foo'', JNum 1)])])])],
              JObj [(''term'', JObj [(''bar.2'', JNum 2)])]])])]])])])]\<rparr> \<and>
   first_occurrences (map field (filter_targets example_filter)) = [''/foo'', ''/bar'']"
  using fields_first_occurrence [OF convert_example] convert_example by simp

section \<open>Required fields\<close>

lemma validate_loop_find:
  "validate_loop rs b =
     (case find (\<lambda>q. q \<notin> fieldsSet b) rs of
        None \<Rightarrow> Inr ()
      | Some q \<Rightarrow> Inl (RequiredFieldError q))"
  by (induction rs) auto

lemma walk_fields:
  assumes "Builder_build st f new_Builder = Inr (dsl, b)"
  shows "fieldsSet b = field ` set (filter_targets f)"
  using build_state(1) [OF assms] by (simp add: fold_register_new)

text \<open>
  C8. The required fields are checked once, on the builder that the complete walk leaves:
  \<open>convert\<close> fails with \<open>RequiredFieldError\<close> carrying \<open>r\<close> exactly when the walk
  of the tree succeeds and \<open>r\<close> is the first member of the strategy's \<open>require\<close> that is
  not the field of any target of the tree, subject or object, at any depth. So it fails
  with a \<open>RequiredFieldError\<close> exactly when the walk succeeds and some required field is the
  field of no target; a walk that fails makes \<open>convert\<close> fail with the walk's error, which
  is never a \<open>RequiredFieldError\<close>; and when the walk succeeds and every required field
  is referenced, \<open>convert\<close> returns.
\<close>

theorem required_fields_checked_after_walk:
  "(convert (Instance f) (Instance st) = Inl (RequiredFieldError r) \<longleftrightarrow>
      (\<exists>dsl b. Builder_build st f new_Builder = Inr (dsl, b)) \<and>
      find (\<lambda>q. q \<notin> field ` set (filter_targets f)) (require st) = Some r) \<and>
   ((\<exists>q. convert (Instance f) (Instance st) = Inl (RequiredFieldError q)) \<longleftrightarrow>
      (\<exists>dsl b. Builder_build st f new_Builder = Inr (dsl, b)) \<and>
      (\<exists>q \<in> set (require st). q \<notin> field ` set (filter_targets f))) \<and>
   (\<forall>e. Builder_build st f new_Builder = Inl e \<longrightarrow>
      convert (Instance f) (Instance st) = Inl e \<and> (\<forall>q. e \<noteq> RequiredFieldError q)) \<and>
   ((\<exists>dsl b. Builder_build st f new_Builder = Inr (dsl, b)) \<and>
    (\<forall>q \<in> set (require st). q \<in> field ` set (filter_targets f)) \<longrightarrow>
      (\<exists>res. convert (Instance f) (Instance st) = Inr res))"
proof -
  let ?missing = "\<lambda>q. q \<notin> field ` set (filter_targets f)"
  have failed: "convert (Instance f) (Instance st) = Inl e \<and> (\<forall>q. e \<noteq> RequiredFieldError q)"
    if "Builder_build st f new_Builder = Inl e" for e
    using that build_error(1) [OF that] by (auto simp: convert_instance)
  have walked: "convert (Instance f) (Instance st) =
      (case find ?missing (require st) of
         None \<Rightarrow> Inr \<lparr>out_fields = fieldsArr b, out_value = JObj [(''filter'', dsl)]\<rparr>
       | Some q \<Rightarrow> Inl (RequiredFieldError q))"
    if "Builder_build st f new_Builder = Inr (dsl, b)" for dsl b
    using that walk_fields [OF that]
    by (simp add: convert_instance validate_def validate_loop_find split: option.splits)
  have first: "convert (Instance f) (Instance st) = Inl (RequiredFieldError r) \<longleftrightarrow>
      (\<exists>dsl b. Builder_build st f new_Builder = Inr (dsl, b)) \<and>
      find ?missing (require st) = Some r" for r
  proof (cases "Builder_build st f new_Builder")
    case (Inl e)
    with failed [OF Inl] show ?thesis by auto
  next
    case (Inr p)
    obtain dsl b where "p = (dsl, b)" by (cases p)
    with Inr walked [of dsl b] show ?thesis
      by (auto split: option.splits)
  qed
  have some: "(\<exists>q. find ?missing (require st) = Some q) \<longleftrightarrow>
      (\<exists>q \<in> set (require st). ?missing q)"
    by (cases "find ?missing (require st)") (auto simp: find_None_iff find_Some_iff)
  have any: "(\<exists>q. convert (Instance f) (Instance st) = Inl (RequiredFieldError q)) \<longleftrightarrow>
      (\<exists>dsl b. Builder_build st f new_Builder = Inr (dsl, b)) \<and>
      (\<exists>q \<in> set (require st). ?missing q)"
    using first some by blast
  have returns: "\<exists>res. convert (Instance f) (Instance st) = Inr res"
    if "\<exists>dsl b. Builder_build st f new_Builder = Inr (dsl, b)"
      and "\<forall>q \<in> set (require st). q \<in> field ` set (filter_targets f)"
  proof -
    from that(1) obtain dsl b where w: "Builder_build st f new_Builder = Inr (dsl, b)" by blast
    from that(2) have "find ?missing (require st) = None"
      by (simp add: find_None_iff)
    with walked [OF w] show ?thesis by simp
  qed
  from first any failed returns show ?thesis by blast
qed


lemma walk_example:
  "Builder_build \<lparr>allow = {}, deny = {}, require = [''/foo'', ''/baz'', ''/qux'']\<rparr>
     example_filter new_Builder =
   Inr (JObj [(''bool'', JObj [(''should'', JArr
          [JObj [(''bool'', JObj [(''must'', JArr
             [JObj [(''term'', JObj [(''foo'', JNum 42)])]])])],
           JObj [(''bool'', JObj [(''must'', JArr
             [JObj [(''bool'', JObj [(''must_not'', JObj [(''term'', JObj [(''foo'', JNum 1)])])])],
              JObj [(''term'', JObj [(''bar.2'', JNum 2)])]])])]])])],
        \<lparr>fieldsSet = {''/foo'', ''/bar''}, fieldsArr = [''/foo'', ''/bar'']\<rparr>)"
  by (simp add: example_filter_def foo_def bar_2_def evaluate digits.simps insert_commute)

lemma missing_example:
  "find (\<lambda>q. q \<notin> field ` set (filter_targets example_filter)) [''/foo'', ''/baz'', ''/qux'']
     = Some ''/baz''"
  by (simp add: example_filter_def foo_def bar_2_def clause_targets_def)

theorem required_fields_checked_after_walk_witness:
  "find (\<lambda>q. q \<notin> field ` set (filter_targets example_filter)) [''/foo'', ''/baz'', ''/qux'']
     = Some ''/baz'' \<and>
   convert (Instance example_filter)
     (Instance \<lparr>allow = {}, deny = {}, require = [''/foo'', ''/baz'', ''/qux'']\<rparr>) =
     Inl (RequiredFieldError ''/baz'')"
proof -
  have "\<exists>dsl b. Builder_build \<lparr>allow = {}, deny = {}, require = [''/foo'', ''/baz'', ''/qux'']\<rparr>
     example_filter new_Builder = Inr (dsl, b)"
    using walk_example by blast
  with missing_example
    required_fields_checked_after_walk
      [of example_filter "\<lparr>allow = {}, deny = {}, require = [''/foo'', ''/baz'', ''/qux'']\<rparr>"
          "''/baz''"]
  show ?thesis by simp
qed

section \<open>The arguments of convert\<close>

lemma walk_no_TypeError:
  "\<not> isTypeError (convert (Instance f) (Instance st))"
proof (cases "Builder_build st f new_Builder")
  case (Inl e)
  from build_error(1) [OF Inl] Inl show ?thesis
    by (cases e) (simp_all add: convert_instance)
next
  case (Inr p)
  obtain dsl b where p: "p = (dsl, b)" by (cases p)
  show ?thesis
    using Inr p
    by (simp add: convert_instance validate_def validate_loop_find
          split: option.splits sum.splits)
qed

text \<open>
  C10. \<open>convert\<close> throws a \<open>TypeError\<close>, which is not one of the errors that errors.js
  exports, when \<open>filter\<close> is not a \<open>Filter\<close> instance, and when \<open>strategy\<close> is given
  (is not \<open>undefined\<close>) and is not a \<open>Strategy\<close> instance, whatever the filter holds:
  the checks come before the walk. When \<open>strategy\<close> is left out, the conversion is the one
  with \<open>defaultStrategy\<close>, which is \<open>new Strategy({})\<close> and has empty \<open>allow\<close>,
  \<open>deny\<close> and \<open>require\<close>; with a \<open>Filter\<close> and a \<open>Strategy\<close> or no strategy, no
  \<open>TypeError\<close> is thrown.
\<close>

theorem convert_argument_checks:
  "convert (Other v) sarg = Inl (TypeError argFilter) \<and>
   (w \<noteq> JUndefined \<longrightarrow>
      convert (Instance f) (Other w) = Inl (TypeError argStrategy) \<and>
      isTypeError (convert farg (Other w))) \<and>
   error_name (TypeError m) \<notin> set errors_exports \<and>
   convert (Instance f) (Other JUndefined) = convert (Instance f) (Instance defaultStrategy) \<and>
   new_Strategy (SObject JUndefined JUndefined None) = Inr defaultStrategy \<and>
   defaultStrategy = \<lparr>allow = {}, deny = {}, require = []\<rparr> \<and>
   \<not> isTypeError (convert (Instance f) (Other JUndefined)) \<and>
   \<not> isTypeError (convert (Instance f) (Instance st))"
proof -
  have filter_first: "convert (Other v) sarg = Inl (TypeError argFilter)"
    by (simp add: convert_def)
  have strategy: "convert (Instance f) (Other w) = Inl (TypeError argStrategy)"
    if "w \<noteq> JUndefined"
    using that by (cases w) (simp_all add: convert_def)
  have either: "isTypeError (convert farg (Other w))" if "w \<noteq> JUndefined"
    using that by (cases farg; cases w) (simp_all add: convert_def)
  have omitted: "convert (Instance f) (Other JUndefined) =
      convert (Instance f) (Instance defaultStrategy)"
    by (simp add: convert_def)
  have default: "new_Strategy (SObject JUndefined JUndefined None) = Inr defaultStrategy"
    by (simp add: defaultStrategy_def)
  have name: "error_name (TypeError m) \<notin> set errors_exports"
    by (simp add: errors_exports_def)
  from filter_first strategy either omitted default name
    walk_no_TypeError [of f st] walk_no_TypeError [of f defaultStrategy]
  show ?thesis
    by (simp add: defaultStrategy_def)
qed

theorem convert_argument_checks_witness:
  "JNum 42 \<noteq> JUndefined \<and>
   convert (Other (JNum 42)) (Other JUndefined) = Inl (TypeError argFilter) \<and>
   convert (Instance example_filter) (Other (JNum 42)) = Inl (TypeError argStrategy)"
  using convert_argument_checks [of "JNum 42" "Other JUndefined" "JNum 42" example_filter]
  by simp

section \<open>The Strategy constructor\<close>

lemma createTargetSet_loop_error:
  "createTargetSet_loop name vs acc = Inl e \<Longrightarrow> \<exists>m. e = TypeError m"
  by (induction name vs acc rule: createTargetSet_loop.induct) auto

lemma createTargetSet_loop_ok:
  "createTargetSet_loop name vs acc = Inr s \<Longrightarrow>
     (\<forall>v \<in> set vs. isString v) \<and> (vs \<noteq> [] \<longrightarrow> s \<noteq> {}) \<and> acc \<subseteq> s"
  by (induction name vs acc rule: createTargetSet_loop.induct) auto

lemma createTargetSet_error:
  "createTargetSet v name = Inl e \<Longrightarrow> \<exists>m. e = TypeError m"
  by (cases v) (auto simp: createTargetSet_def dest: createTargetSet_loop_error)

lemma new_Strategy_error:
  "new_Strategy s = Inl e \<Longrightarrow> \<exists>m. e = TypeError m"
  by (cases s)
     (auto simp: argSettingsRequired_def split: sum.splits if_splits
           dest: createTargetSet_error)

lemma isTypeError_iff: "isTypeError r \<longleftrightarrow> (\<exists>m. r = Inl (TypeError m))"
  by (cases r rule: isTypeError.cases) simp_all

lemma new_Strategy_fails:
  "(\<And>st. new_Strategy s \<noteq> Inr st) \<Longrightarrow> isTypeError (new_Strategy s)"
  by (cases "new_Strategy s") (auto simp: isTypeError_iff dest: new_Strategy_error)

lemma new_Strategy_exclusive:
  "new_Strategy s = Inr st \<Longrightarrow> allow st = {} \<or> deny st = {}"
  by (cases s) (auto split: sum.splits if_splits)

text \<open>
  C4, as the code has it. \<open>new Strategy\<close> fails with the built-in \<open>TypeError\<close>, which
  errors.js does not export, when \<open>allow\<close> and \<open>deny\<close> are both non-empty arrays and
  when the array \<open>allow\<close> or the array \<open>deny\<close> has a member that is not a string.
  With \<open>allow\<close>, \<open>deny\<close> and \<open>require\<close> all absent it returns the strategy with
  empty \<open>allow\<close>, \<open>deny\<close> and \<open>require\<close>, under which resolving a target is never
  refused by the allow or deny check and \<open>validate\<close> always passes.
\<close>

theorem strategy_settings_checked:
  "(as \<noteq> [] \<and> ds \<noteq> [] \<longrightarrow> isTypeError (new_Strategy (SObject (JArr as) (JArr ds) r))) \<and>
   ((\<exists>x \<in> set as. \<not> isString x) \<longrightarrow> isTypeError (new_Strategy (SObject (JArr as) d r))) \<and>
   ((\<exists>x \<in> set ds. \<not> isString x) \<longrightarrow> isTypeError (new_Strategy (SObject a (JArr ds) r))) \<and>
   error_name (TypeError m) = ''TypeError'' \<and>
   ''TypeError'' \<notin> set errors_exports \<and>
   new_Strategy (SObject JUndefined JUndefined None) =
     Inr \<lparr>allow = {}, deny = {}, require = []\<rparr> \<and>
   Builder_target \<lparr>allow = {}, deny = {}, require = []\<rparr> (JTarget t) b =
     (case target_loop t (path t) [] of
        Inl e \<Rightarrow> Inl e
      | Inr val \<Rightarrow> Inr (val, register (field t) b)) \<and>
   validate \<lparr>allow = {}, deny = {}, require = []\<rparr> b = Inr ()"
proof -
  have both: "isTypeError (new_Strategy (SObject (JArr as) (JArr ds) r))"
    if "as \<noteq> []" "ds \<noteq> []"
  proof (rule new_Strategy_fails)
    fix st
    show "new_Strategy (SObject (JArr as) (JArr ds) r) \<noteq> Inr st"
      using that by (auto split: sum.splits dest: createTargetSet_loop_ok)
  qed
  have al: "isTypeError (new_Strategy (SObject (JArr as) d r))"
    if "\<exists>x \<in> set as. \<not> isString x"
  proof (rule new_Strategy_fails)
    fix st
    show "new_Strategy (SObject (JArr as) d r) \<noteq> Inr st"
      using that by (auto split: sum.splits dest: createTargetSet_loop_ok)
  qed
  have de: "isTypeError (new_Strategy (SObject a (JArr ds) r))"
    if "\<exists>x \<in> set ds. \<not> isString x"
  proof (rule new_Strategy_fails)
    fix st
    show "new_Strategy (SObject a (JArr ds) r) \<noteq> Inr st"
      using that by (auto split: sum.splits dest: createTargetSet_loop_ok)
  qed
  from both al de show ?thesis
    by (simp add: errors_exports_def validate_def)
qed

theorem strategy_settings_checked_witness:
  "[JStr ''/foo''] \<noteq> [] \<and> [JStr ''/bar''] \<noteq> [] \<and>
   isTypeError (new_Strategy (SObject (JArr [JStr ''/foo'']) (JArr [JStr ''/bar'']) None)) \<and>
   (\<exists>x \<in> set [JStr ''/foo'', JNum 42]. \<not> isString x) \<and>
   isTypeError (new_Strategy (SObject (JArr [JStr ''/foo'', JNum 42]) JUndefined None)) \<and>
   (\<exists>x \<in> set [JNum 42]. \<not> isString x) \<and>
   isTypeError (new_Strategy (SObject JUndefined (JArr [JNum 42]) None))"
  using strategy_settings_checked [of "[JStr ''/foo'']" "[JStr ''/bar'']" None JUndefined JUndefined]
    strategy_settings_checked [of "[JStr ''/foo'', JNum 42]" "[JNum 42]" None JUndefined JUndefined]
  by simp

theorem strategy_config_error_counterexample:
  "new_Strategy (SObject (JArr [JStr ''/foo'']) (JArr [JStr ''/bar'']) None) =
     Inl (TypeError argSettingsAllowDeny) \<and>
   error_name (TypeError argSettingsAllowDeny) \<noteq> ''ConfigError'' \<and>
   error_name (TypeError argSettingsAllowDeny) \<notin> set errors_exports \<and>
   ''ConfigError'' \<notin> set errors_exports"
  by (simp add: errors_exports_def)

section \<open>Resolving a target\<close>

lemma has_illegal_char_iff: "has_illegal_char s \<longleftrightarrow> (\<exists>c \<in> set s. c \<in> set illegal_chars)"
  by (induction s) auto

lemma has_hyphens_intro: "has_hyphens (u @ ''--'' @ v)"
proof (induction u)
  case Nil
  then show ?case by simp
next
  case (Cons a u)
  then show ?case by (cases "u @ ''--'' @ v") auto
qed

lemma has_hyphens_elim: "has_hyphens s \<Longrightarrow> \<exists>u v. s = u @ ''--'' @ v"
proof (induction s rule: has_hyphens.induct)
  case (1 a b cs)
  show ?case
  proof (cases "a = CHR ''-'' \<and> b = CHR ''-''")
    case True
    then have "a # b # cs = [] @ ''--'' @ cs" by simp
    then show ?thesis by blast
  next
    case False
    with 1 obtain u v where "b # cs = u @ ''--'' @ v" by auto
    then have "a # b # cs = (a # u) @ ''--'' @ v" by simp
    then show ?thesis by blast
  qed
qed simp_all

lemma has_hyphens_iff: "has_hyphens s \<longleftrightarrow> (\<exists>u v. s = u @ ''--'' @ v)"
  using has_hyphens_intro has_hyphens_elim by blast

lemma join_dot_merge: "join_dot (x # y # ys) = join_dot ((x @ ''.'' @ y) # ys)"
  by (cases ys) simp_all

lemma target_loop_invalid:
  "\<exists>seg \<in> set segs. invalidTarget (stringify seg) \<Longrightarrow>
   target_loop t segs val = Inl (new_InvalidTargetError t)"
  by (induction segs arbitrary: val) auto

lemma target_loop_nonempty:
  "val \<noteq> [] \<Longrightarrow> \<forall>seg \<in> set segs. \<not> invalidTarget (stringify seg) \<Longrightarrow>
   target_loop t segs val = Inr (join_dot (val # map stringify segs))"
proof (induction segs arbitrary: val)
  case Nil
  then show ?case by simp
next
  case (Cons seg segs)
  then have "target_loop t (seg # segs) val =
      Inr (join_dot ((val @ ''.'' @ stringify seg) # map stringify segs))"
    by simp
  then show ?case by (simp only: join_dot_merge list.map)
qed

lemma target_loop_empty:
  "\<forall>seg \<in> set segs. \<not> invalidTarget (stringify seg) \<Longrightarrow>
   target_loop t segs [] = Inr (join_dot (dropWhile (\<lambda>s. s = []) (map stringify segs)))"
proof (induction segs)
  case Nil
  then show ?case by simp
next
  case (Cons seg segs)
  show ?case
  proof (cases "stringify seg = []")
    case True
    with Cons show ?thesis by simp
  next
    case False
    with Cons.prems target_loop_nonempty [of "stringify seg" segs t] show ?thesis
      by simp
  qed
qed

text \<open>
  What \<open>_target\<close> returns, in the order of its checks: \<open>NonallowedFieldError\<close> when a
  non-empty \<open>allow\<close> lacks the field, \<open>DeniedFieldError\<close> when \<open>deny\<close> has it, each
  carrying the field; \<open>InvalidTargetError\<close> with the target's pointer string (in its
  message) and its path when a stringified segment has one of the twenty illegal characters
  or two hyphens in a row; otherwise the key and the builder with the field registered.
  On every path that is empty or whose first segment is not the empty string, the key is
  the stringified segments joined with \<open>.\<close>.
\<close>

lemma target_resolution:
  "Builder_target st (JTarget t) b =
     (if allow st \<noteq> {} \<and> field t \<notin> allow st then Inl (NonallowedFieldError (field t))
      else if field t \<in> deny st then Inl (DeniedFieldError (field t))
      else if \<exists>seg \<in> set (path t). invalidTarget (stringify seg)
        then Inl (InvalidTargetError (pointer t) (path t))
      else Inr (join_dot (dropWhile (\<lambda>s. s = []) (map stringify (path t))),
                register (field t) b)) \<and>
   (path t = [] \<or> stringify (hd (path t)) \<noteq> [] \<longrightarrow>
      join_dot (dropWhile (\<lambda>s. s = []) (map stringify (path t))) =
      join_dot (map stringify (path t))) \<and>
   (invalidTarget s \<longleftrightarrow>
      (\<exists>c \<in> set s. c \<in> set illegal_chars) \<or> (\<exists>u v. s = u @ ''--'' @ v)) \<and>
   error_message (InvalidTargetError (pointer t) (path t)) = msg_invalidTarget @ pointer t"
proof -
  have resolve: "Builder_target st (JTarget t) b =
     (if allow st \<noteq> {} \<and> field t \<notin> allow st then Inl (NonallowedFieldError (field t))
      else if field t \<in> deny st then Inl (DeniedFieldError (field t))
      else if \<exists>seg \<in> set (path t). invalidTarget (stringify seg)
        then Inl (InvalidTargetError (pointer t) (path t))
      else Inr (join_dot (dropWhile (\<lambda>s. s = []) (map stringify (path t))),
                register (field t) b))"
  proof (cases "\<exists>seg \<in> set (path t). invalidTarget (stringify seg)")
    case True
    from target_loop_invalid [OF True] True show ?thesis
      by (auto simp: new_InvalidTargetError_def)
  next
    case False
    then have "\<forall>seg \<in> set (path t). \<not> invalidTarget (stringify seg)" by blast
    from target_loop_empty [OF this] False show ?thesis
      by auto
  qed
  have plain: "join_dot (dropWhile (\<lambda>s. s = []) (map stringify (path t))) =
        join_dot (map stringify (path t))"
    if "path t = [] \<or> stringify (hd (path t)) \<noteq> []"
    using that by (cases "path t") auto
  have invalid: "invalidTarget s \<longleftrightarrow>
        (\<exists>c \<in> set s. c \<in> set illegal_chars) \<or> (\<exists>u v. s = u @ ''--'' @ v)"
    by (simp add: invalidTarget_def has_illegal_char_iff has_hyphens_iff)
  from resolve plain invalid show ?thesis
    by (simp del: Builder_target.simps)
qed

lemma target_resolution_examples:
  "Builder_target defaultStrategy (JTarget bar_2) new_Builder =
     Inr (''bar.2'', \<lparr>fieldsSet = {''/bar''}, fieldsArr = [''/bar'']\<rparr>) \<and>
   Builder_target defaultStrategy
     (JTarget \<lparr>path = [SegStr ''#blah''], field = ''/#blah'', pointer = ''/#blah''\<rparr>) new_Builder =
     Inl (InvalidTargetError ''/#blah'' [SegStr ''#blah'']) \<and>
   Builder_target defaultStrategy
     (JTarget \<lparr>path = [SegStr ''a--b''], field = ''/a--b'', pointer = ''/a--b''\<rparr>) new_Builder =
     Inl (InvalidTargetError ''/a--b'' [SegStr ''a--b'']) \<and>
   Builder_target \<lparr>allow = {''/bar''}, deny = {}, require = []\<rparr> (JTarget foo) new_Builder =
     Inl (NonallowedFieldError ''/foo'') \<and>
   Builder_target \<lparr>allow = {}, deny = {''/foo''}, require = []\<rparr> (JTarget foo) new_Builder =
     Inl (DeniedFieldError ''/foo'')"
  using
    target_resolution [of defaultStrategy bar_2 new_Builder]
    target_resolution [of defaultStrategy
      "\<lparr>path = [SegStr ''#blah''], field = ''/#blah'', pointer = ''/#blah''\<rparr>" new_Builder]
    target_resolution [of defaultStrategy
      "\<lparr>path = [SegStr ''a--b''], field = ''/a--b'', pointer = ''/a--b''\<rparr>" new_Builder]
    target_resolution [of "\<lparr>allow = {''/bar''}, deny = {}, require = []\<rparr>" foo new_Builder]
    target_resolution [of "\<lparr>allow = {}, deny = {''/foo''}, require = []\<rparr>" foo new_Builder]
  by (simp add: defaultStrategy_def new_Builder_def register_def invalidTarget_def
        illegal_chars_def foo_def bar_2_def digits.simps
        del: Builder_target.simps)

text \<open>
  C7. The canonical key is to be the stringified segments joined with \<open>.\<close>. The loop of
  \<open>_target\<close> writes the separator only when the key built so far is not empty, so a
  leading segment that is the empty string loses its separator: the path of the empty
  string and \<open>a\<close> resolves to the key \<open>a\<close>, where the join is \<open>.a\<close>, and to the same
  key as the path of \<open>a\<close> alone. An empty segment that is not leading keeps its
  separator: the path of \<open>a\<close>, the empty string and \<open>b\<close> gives \<open>a..b\<close>, the join.
  A conversion of a clause on the first target puts the key \<open>a\<close> into the fragment.
\<close>

theorem canonical_key_leading_empty_segment:
  "Builder_target defaultStrategy
     (JTarget \<lparr>path = [SegStr [], SegStr ''a''], field = ''//a'', pointer = ''//a''\<rparr>) new_Builder =
     Inr (''a'', \<lparr>fieldsSet = {''//a''}, fieldsArr = [''//a'']\<rparr>) \<and>
   join_dot (map stringify [SegStr [], SegStr ''a'']) = ''.a'' \<and>
   ''a'' \<noteq> join_dot (map stringify [SegStr [], SegStr ''a'']) \<and>
   Builder_target defaultStrategy
     (JTarget \<lparr>path = [SegStr ''a''], field = ''/a'', pointer = ''/a''\<rparr>) new_Builder =
     Inr (''a'', \<lparr>fieldsSet = {''/a''}, fieldsArr = [''/a'']\<rparr>) \<and>
   Builder_target defaultStrategy
     (JTarget \<lparr>path = [SegStr ''a'', SegStr [], SegStr ''b''], field = ''/a//b'',
               pointer = ''/a//b''\<rparr>) new_Builder =
     Inr (''a..b'', \<lparr>fieldsSet = {''/a//b''}, fieldsArr = [''/a//b'']\<rparr>) \<and>
   join_dot (map stringify [SegStr ''a'', SegStr [], SegStr ''b'']) = ''a..b'' \<and>
   convert
     (Instance (Filter
        [Statement []
           (VClause \<lparr>subject = JTarget \<lparr>path = [SegStr [], SegStr ''a''], field = ''//a'',
                                      pointer = ''//a''\<rparr>,
                     operator = ''eq'', object = JNum 42\<rparr>)]))
     (Other JUndefined) =
     Inr \<lparr>out_fields = [''//a''],
          out_value = JObj [(''filter'', JObj [(''bool'', JObj [(''must'', JArr
            [JObj [(''term'', JObj [(''a'', JNum 42)])]])])])]\<rparr>"
  by (simp add: evaluate)

section \<open>Patterns\<close>











section \<open>Scripted comparisons\<close>

lemma scriptOperator_known:
  "(\<exists>sym. scriptOperator ty = Inr sym) \<longleftrightarrow> ty \<in> set script_operators"
  by (auto simp: script_operators_def)

lemma scriptOperator_unknown:
  "ty \<notin> set script_operators \<Longrightarrow> scriptOperator ty = Inl (ConvertError msg_convert)"
  by (simp add: script_operators_def new_ConvertError_def)

lemma literals_unknown:
  assumes "ty \<notin> set script_operators" "\<not> isTarget x" "\<not> isTarget y"
  shows "build_clause st \<lparr>subject = x, operator = ty, object = y\<rparr> b =
         Inl (ConvertError msg_convert)"
  using assms(2,3) scriptOperator_unknown [OF assms(1)]
  by (simp add: both_literals scriptLiterals_def del: scriptOperator.simps)

lemma targets_unknown:
  assumes "ty \<notin> set script_operators"
  shows "build_clause st \<lparr>subject = JTarget s, operator = ty, object = JTarget t\<rparr> b =
     (case Builder_target st (JTarget s) b of
        Inl e \<Rightarrow> Inl e
      | Inr (key, b1) \<Rightarrow> Inl (ConvertError msg_convert))"
  using scriptOperator_unknown [OF assms]
  by (simp add: both_targets Builder_scriptTargets_def split: sum.splits
        del: scriptOperator.simps Builder_target.simps)

lemma same_kind_unknown_fails:
  assumes "ty \<notin> set script_operators" "operator c = ty"
    "isTarget (subject c) = isTarget (object c)"
  shows "\<exists>e. build_clause st c b = Inl e"
proof -
  obtain x y where c: "c = \<lparr>subject = x, operator = ty, object = y\<rparr>"
    using assms(2) by (cases c) auto
  show ?thesis
  proof (cases "isTarget x")
    case True
    with assms(3) c obtain s t where "x = JTarget s" "y = JTarget t"
      by (auto simp: isTarget_iff)
    with targets_unknown [OF assms(1), of st s t b] c show ?thesis
      by (auto split: sum.splits simp del: Builder_target.simps)
  next
    case False
    with assms(3) c literals_unknown [OF assms(1), of x y st b] show ?thesis
      by simp
  qed
qed

text \<open>
  C9, as the code has it. Only \<open>eq\<close>, \<open>neq\<close>, \<open>gt\<close>, \<open>gte\<close>, \<open>lt\<close> and
  \<open>lte\<close> have a scripted form. With any other operator, a clause between two literals
  fails with \<open>ConvertError\<close>, and a clause between two targets resolves its subject
  first: it fails with the error of that resolution if there is one
  (\<open>NonallowedFieldError\<close>, \<open>DeniedFieldError\<close> or \<open>InvalidTargetError\<close>) and with
  \<open>ConvertError\<close> otherwise. A conversion whose first statement is such a clause fails
  with the same error, and a conversion whose tree holds such a clause, at any depth,
  fails.
\<close>

theorem unscripted_operator_fails:
  assumes "ty \<notin> set script_operators"
  shows
    "scriptOperator ty = Inl (ConvertError msg_convert) \<and>
     (\<not> isTarget x \<and> \<not> isTarget y \<longrightarrow>
        build_clause st \<lparr>subject = x, operator = ty, object = y\<rparr> b =
          Inl (ConvertError msg_convert) \<and>
        convert (Instance (Filter (Statement cj
                  (VClause \<lparr>subject = x, operator = ty, object = y\<rparr>) # rest)))
          (Instance st) = Inl (ConvertError msg_convert)) \<and>
     build_clause st \<lparr>subject = JTarget s, operator = ty, object = JTarget t\<rparr> b =
       (case Builder_target st (JTarget s) b of
          Inl e \<Rightarrow> Inl e
        | Inr (key, b1) \<Rightarrow> Inl (ConvertError msg_convert)) \<and>
     convert (Instance (Filter (Statement cj
               (VClause \<lparr>subject = JTarget s, operator = ty, object = JTarget t\<rparr>) # rest)))
       (Instance st) =
       (case Builder_target st (JTarget s) new_Builder of
          Inl e \<Rightarrow> Inl e
        | Inr (key, b1) \<Rightarrow> Inl (ConvertError msg_convert)) \<and>
     (\<forall>e. Builder_target st (JTarget s) b = Inl e \<longrightarrow>
        (\<exists>f. e = NonallowedFieldError f) \<or> (\<exists>f. e = DeniedFieldError f) \<or>
        (\<exists>p d. e = InvalidTargetError p d)) \<and>
     (c \<in> set (filter_clauses f) \<and> operator c = ty \<and>
      isTarget (subject c) = isTarget (object c) \<longrightarrow>
        (\<exists>e. convert (Instance f) sarg = Inl e)) \<and>
     (\<forall>ty'. (\<exists>sym. scriptOperator ty' = Inr sym) \<longleftrightarrow> ty' \<in> set script_operators) \<and>
     script_operators = [''eq'', ''neq'', ''gt'', ''gte'', ''lt'', ''lte'']"
proof -
  have lits: "build_clause st \<lparr>subject = x, operator = ty, object = y\<rparr> b =
          Inl (ConvertError msg_convert) \<and>
        convert (Instance (Filter (Statement cj
                  (VClause \<lparr>subject = x, operator = ty, object = y\<rparr>) # rest)))
          (Instance st) = Inl (ConvertError msg_convert)"
    if "\<not> isTarget x \<and> \<not> isTarget y"
    using that literals_unknown [OF assms, of x y st]
      convert_first_clause_fails
        [of st "\<lparr>subject = x, operator = ty, object = y\<rparr>" "ConvertError msg_convert" cj rest]
    by blast
  have first: "convert (Instance (Filter (Statement cj
               (VClause \<lparr>subject = JTarget s, operator = ty, object = JTarget t\<rparr>) # rest)))
       (Instance st) =
       (case Builder_target st (JTarget s) new_Builder of
          Inl e \<Rightarrow> Inl e
        | Inr (key, b1) \<Rightarrow> Inl (ConvertError msg_convert))"
  proof (cases "Builder_target st (JTarget s) new_Builder")
    case (Inl e)
    with targets_unknown [OF assms, of st s t new_Builder]
    have "build_clause st \<lparr>subject = JTarget s, operator = ty, object = JTarget t\<rparr> new_Builder
        = Inl e"
      by (simp del: Builder_target.simps)
    from convert_first_clause_error [OF this] Inl show ?thesis
      by (simp del: Builder_target.simps)
  next
    case (Inr p)
    with targets_unknown [OF assms, of st s t new_Builder]
    have "build_clause st \<lparr>subject = JTarget s, operator = ty, object = JTarget t\<rparr> new_Builder
        = Inl (ConvertError msg_convert)"
      by (simp del: Builder_target.simps split: prod.splits)
    from convert_first_clause_error [OF this] Inr show ?thesis
      by (simp del: Builder_target.simps split: prod.splits)
  qed
  have kinds: "(\<exists>f. e = NonallowedFieldError f) \<or> (\<exists>f. e = DeniedFieldError f) \<or>
        (\<exists>p d. e = InvalidTargetError p d)"
    if "Builder_target st (JTarget s) b = Inl e" for e
    using that
    by (auto split: if_splits sum.splits dest!: target_loop_error
          simp: new_InvalidTargetError_def)
  have tree: "\<exists>e. convert (Instance f) sarg = Inl e"
    if "c \<in> set (filter_clauses f) \<and> operator c = ty \<and>
        isTarget (subject c) = isTarget (object c)"
    using that convert_fails_with_clause [of c f sarg] same_kind_unknown_fails [OF assms, of c]
    by blast
  from scriptOperator_unknown [OF assms] lits targets_unknown [OF assms] first kinds tree
    scriptOperator_known
  show ?thesis
    by (simp add: script_operators_def del: scriptOperator.simps Builder_target.simps)
qed

theorem unscripted_operator_fails_witness:
  "''between'' \<notin> set script_operators \<and>
   \<not> isTarget (JStr ''a'') \<and> \<not> isTarget (JStr ''b'') \<and>
   build_clause defaultStrategy
     \<lparr>subject = JStr ''a'', operator = ''between'', object = JStr ''b''\<rparr> new_Builder =
     Inl (ConvertError msg_convert) \<and>
   build_clause defaultStrategy
     \<lparr>subject = JTarget foo, operator = ''between'', object = JTarget bar_2\<rparr> new_Builder =
     Inl (ConvertError msg_convert) \<and>
   build_clause \<lparr>allow = {}, deny = {''/foo''}, require = []\<rparr>
     \<lparr>subject = JTarget foo, operator = ''between'', object = JTarget bar_2\<rparr> new_Builder =
     Inl (DeniedFieldError ''/foo'')"
proof -
  have h: "''between'' \<notin> set script_operators"
    by (simp add: script_operators_def)
  have ok: "Builder_target defaultStrategy (JTarget foo) new_Builder =
      Inr (''foo'', \<lparr>fieldsSet = {''/foo''}, fieldsArr = [''/foo'']\<rparr>)"
    using resolve_foo by (simp add: foo_def)
  have denied: "Builder_target \<lparr>allow = {}, deny = {''/foo''}, require = []\<rparr>
      (JTarget foo) new_Builder = Inl (DeniedFieldError ''/foo'')"
    using resolve_denied by (simp add: foo_def)
  have lit: "build_clause defaultStrategy
     \<lparr>subject = JStr ''a'', operator = ''between'', object = JStr ''b''\<rparr> new_Builder =
     Inl (ConvertError msg_convert)"
    using unscripted_operator_fails
      [OF h, where x = "JStr ''a''" and y = "JStr ''b''" and st = defaultStrategy
         and b = new_Builder]
    by simp
  have tgt: "build_clause defaultStrategy
     \<lparr>subject = JTarget foo, operator = ''between'', object = JTarget bar_2\<rparr> new_Builder =
     Inl (ConvertError msg_convert)"
    using unscripted_operator_fails
      [OF h, where st = defaultStrategy and b = new_Builder and s = foo and t = bar_2]
    by (simp add: ok del: Builder_target.simps)
  have den: "build_clause \<lparr>allow = {}, deny = {''/foo''}, require = []\<rparr>
     \<lparr>subject = JTarget foo, operator = ''between'', object = JTarget bar_2\<rparr> new_Builder =
     Inl (DeniedFieldError ''/foo'')"
    using unscripted_operator_fails
      [OF h, where st = "\<lparr>allow = {}, deny = {''/foo''}, require = []\<rparr>"
         and b = new_Builder and s = foo and t = bar_2]
    by (simp add: denied del: Builder_target.simps)
  from h lit tgt den show ?thesis by simp
qed

theorem unscripted_operator_counterexample:
  "''between'' \<notin> set script_operators \<and>
   convert
     (Instance (Filter
        [Statement []
           (VClause \<lparr>subject = JTarget foo, operator = ''between'', object = JTarget bar_2\<rparr>)]))
     (Instance \<lparr>allow = {}, deny = {''/foo''}, require = []\<rparr>) =
     Inl (DeniedFieldError ''/foo'') \<and>
   error_name (DeniedFieldError ''/foo'') \<noteq> ''ConvertError'' \<and>
   DeniedFieldError ''/foo'' \<noteq> ConvertError msg_convert"
  by (simp add: script_operators_def convert_instance Let_def both_targets
        Builder_scriptTargets_def foo_def bar_2_def)

section \<open>Groups\<close>

lemma and_groups_concat: "concat (and_groups xs) = map snd xs"
proof (induction xs rule: and_groups.induct)
  case 1
  then show ?case by simp
next
  case (2 s rest)
  have "map snd (takeWhile (\<lambda>x. \<not> is_or x) rest) @ map snd (dropWhile (\<lambda>x. \<not> is_or x) rest)
      = map snd rest"
    by (simp flip: map_append)
  with 2 show ?case by simp
qed

lemma and_groups_nonempty: "[] \<notin> set (and_groups xs)"
  by (induction xs rule: and_groups.induct) auto

lemma filter_or_dropWhile:
  "filter is_or (dropWhile (\<lambda>x. \<not> is_or x) xs) = filter is_or xs"
  by (induction xs) auto

lemma and_groups_length:
  "length (and_groups (s # rest)) = Suc (length (filter is_or rest))"
proof (induction "s # rest" arbitrary: s rest rule: and_groups.induct)
  case (2 s rest)
  show ?case
  proof (cases "dropWhile (\<lambda>x. \<not> is_or x) rest")
    case Nil
    then have "filter is_or rest = []"
      using filter_or_dropWhile [of rest] by simp
    then show ?thesis by (simp add: Nil)
  next
    case (Cons r rest')
    then have "is_or r"
      using hd_dropWhile [of "\<lambda>x. \<not> is_or x" rest] by auto
    with Cons have "filter is_or rest = r # filter is_or rest'"
      using filter_or_dropWhile [of rest] by simp
    with 2 [OF Cons] show ?thesis by (simp add: Cons)
  qed
qed

lemma and_groups_single:
  "filter is_or rest = [] \<Longrightarrow> and_groups (s # rest) = [map snd (s # rest)]"
proof -
  assume "filter is_or rest = []"
  then have "\<forall>x \<in> set rest. \<not> is_or x"
    by (simp add: filter_empty_conv)
  then have t: "takeWhile (\<lambda>x. \<not> is_or x) rest = rest"
    and d: "dropWhile (\<lambda>x. \<not> is_or x) rest = []"
    by simp_all
  show ?thesis by (simp add: t d)
qed

section \<open>The loop of the tree compiler\<close>

lemma build_values_length:
  "build_values st vs b = Inr (fs, b') \<Longrightarrow> length fs = length vs"
  by (induction vs arbitrary: b fs) (auto split: sum.splits)

text \<open>
  What the loop returns when it is entered with a current group that is not empty: the
  groups closed so far, the current group extended up to the next \<open>or\<close>, and the groups
  of what follows.
\<close>

lemma build_loop_groups:
  assumes "must \<noteq> []"
  shows "build_loop st ss groups must b =
    (case build_values st (map svalue ss) b of
       Inl e \<Rightarrow> Inl e
     | Inr (fs, b') \<Rightarrow>
         Inr (case groups @ map bool_must
                     ((must @ map snd (takeWhile (\<lambda>x. \<not> is_or x) (zip (map conjunctive ss) fs)))
                      # and_groups (dropWhile (\<lambda>x. \<not> is_or x) (zip (map conjunctive ss) fs))) of
                [w] \<Rightarrow> w
              | ws \<Rightarrow> bool_should ws, b'))"
  using assms
proof (induction ss arbitrary: groups must b)
  case Nil
  then show ?case
    by (cases groups) (simp_all split: list.splits)
next
  case (Cons s ss)
  obtain cj sval where s: "s = Statement cj sval" by (cases s)
  show ?case
  proof (cases "build_value st sval b")
    case (Inl e)
    with s show ?thesis by (simp add: Let_def)
  next
    case (Inr p)
    obtain d b1 where p: "p = (d, b1)" by (cases p)
    show ?thesis
    proof (cases "cj = ''or''")
      case True
      have "build_loop st (s # ss) groups must b =
          build_loop st ss (groups @ [bool_must must]) [d] b1"
        using s Inr p True Cons.prems by (simp add: Let_def)
      also have "\<dots> = (case build_values st (map svalue ss) b1 of
           Inl e \<Rightarrow> Inl e
         | Inr (fs, b') \<Rightarrow>
             Inr (case (groups @ [bool_must must]) @ map bool_must
                     (([d] @ map snd (takeWhile (\<lambda>x. \<not> is_or x) (zip (map conjunctive ss) fs)))
                      # and_groups (dropWhile (\<lambda>x. \<not> is_or x) (zip (map conjunctive ss) fs))) of
                    [w] \<Rightarrow> w
                  | ws \<Rightarrow> bool_should ws, b'))"
        by (rule Cons.IH) simp
      finally show ?thesis
        using s Inr p True
        by (simp add: is_or_def split: sum.splits)
    next
      case False
      have "build_loop st (s # ss) groups must b = build_loop st ss groups (must @ [d]) b1"
        using s Inr p False by (simp add: Let_def)
      also have "\<dots> = (case build_values st (map svalue ss) b1 of
           Inl e \<Rightarrow> Inl e
         | Inr (fs, b') \<Rightarrow>
             Inr (case groups @ map bool_must
                     (((must @ [d]) @ map snd (takeWhile (\<lambda>x. \<not> is_or x) (zip (map conjunctive ss) fs)))
                      # and_groups (dropWhile (\<lambda>x. \<not> is_or x) (zip (map conjunctive ss) fs))) of
                    [w] \<Rightarrow> w
                  | ws \<Rightarrow> bool_should ws, b'))"
        by (rule Cons.IH) simp
      finally show ?thesis
        using s Inr p False
        by (simp add: is_or_def split: sum.splits)
    qed
  qed
qed

lemma Builder_build_groups:
  "Builder_build st (Filter ss) b =
    (case build_values st (map svalue ss) b of
       Inl e \<Rightarrow> Inl e
     | Inr (fs, b') \<Rightarrow>
         Inr (case and_groups (zip (map conjunctive ss) fs) of
                [] \<Rightarrow> bool_must []
              | [g] \<Rightarrow> bool_must g
              | gs \<Rightarrow> bool_should (map bool_must gs), b'))"
proof (cases ss)
  case Nil
  then show ?thesis by simp
next
  case (Cons s rest)
  obtain cj sval where s: "s = Statement cj sval" by (cases s)
  show ?thesis
  proof (cases "build_value st sval b")
    case (Inl e)
    with Cons s show ?thesis by (simp add: Let_def)
  next
    case (Inr p)
    obtain d b1 where p: "p = (d, b1)" by (cases p)
    have "Builder_build st (Filter ss) b = build_loop st rest [] [d] b1"
      using Cons s Inr p by (simp add: Let_def)
    then show ?thesis
      using Cons s Inr p
      by (simp add: build_loop_groups split: sum.splits list.splits)
  qed
qed


lemma or_joined_zip:
  assumes "length fs = length ss"
  shows "length (filter is_or (tl (zip (map conjunctive ss) fs))) = or_joined ss"
proof -
  have count: "length (filter is_or (zip (map conjunctive rs) gs)) =
      length (filter (\<lambda>s. conjunctive s = ''or'') rs)"
    if "length gs = length rs" for rs :: "statement list" and gs :: "'b list"
    using that by (induction gs rs rule: list_induct2) (simp_all add: is_or_def)
  show ?thesis
  proof (cases ss)
    case Nil
    then show ?thesis by (simp add: or_joined_def)
  next
    case (Cons s rest)
    with assms obtain f fs' where fs: "fs = f # fs'" "length fs' = length rest"
      by (cases fs) auto
    with Cons count [OF fs(2)] show ?thesis
      by (simp add: or_joined_def)
  qed
qed

lemma build_values_single:
  "build_values st [v] b = Inr (fs, b') \<Longrightarrow>
     \<exists>f. fs = [f] \<and> build_value st v b = Inr (f, b')"
  by (auto split: sum.splits)

text \<open>
  C1. The tree compiler splits the statements into AND-groups at the statements joined
  by \<open>or\<close>; the conjunction of the first statement joins it to nothing and is not
  counted (\<open>or_joined\<close> counts the statements after the first that carry \<open>or\<close>,
  which are all the statements that carry \<open>or\<close> when the first does not). When
  no statement is joined by \<open>or\<close>, the fragment is the object \<open>bool\<close> with the single
  key \<open>must\<close>, holding the fragments of all statements in order; in particular one
  statement gives \<open>must\<close> with that statement's fragment alone. Otherwise it is the
  object \<open>bool\<close> with the single key \<open>should\<close>, whose entries are the \<open>bool\<close>/\<open>must\<close>
  objects of the groups: one more than the statements joined by \<open>or\<close>, none empty, and
  together all the fragments in order.
\<close>

theorem tree_grouping:
  assumes "Builder_build st (Filter ss) b = Inr (dsl, b')"
  shows "\<exists>fs. build_values st (map svalue ss) b = Inr (fs, b') \<and> length fs = length ss \<and>
     (or_joined ss = 0 \<longrightarrow>
        dsl = bool_must fs \<and> keys dsl = [''bool''] \<and> keys (get dsl ''bool'') = [''must'']) \<and>
     (0 < or_joined ss \<longrightarrow>
        dsl = bool_should (map bool_must (and_groups (zip (map conjunctive ss) fs))) \<and>
        keys dsl = [''bool''] \<and> keys (get dsl ''bool'') = [''should''] \<and>
        length (and_groups (zip (map conjunctive ss) fs)) = Suc (or_joined ss) \<and>
        concat (and_groups (zip (map conjunctive ss) fs)) = fs \<and>
        [] \<notin> set (and_groups (zip (map conjunctive ss) fs))) \<and>
     (\<forall>s. ss = [s] \<longrightarrow>
        (\<exists>f. build_value st (svalue s) b = Inr (f, b') \<and> dsl = bool_must [f])) \<and>
     (ss = [] \<or> conjunctive (hd ss) \<noteq> ''or'' \<longrightarrow>
        or_joined ss = length (filter (\<lambda>s. conjunctive s = ''or'') ss))"
proof -
  have parsed: "or_joined ss = length (filter (\<lambda>s. conjunctive s = ''or'') ss)"
    if "ss = [] \<or> conjunctive (hd ss) \<noteq> ''or''"
    using that by (cases ss) (auto simp: or_joined_def)
  from assms obtain fs where
    vals: "build_values st (map svalue ss) b = Inr (fs, b')" and
    dsl: "dsl = (case and_groups (zip (map conjunctive ss) fs) of
                   [] \<Rightarrow> bool_must []
                 | [g] \<Rightarrow> bool_must g
                 | gs \<Rightarrow> bool_should (map bool_must gs))"
    by (auto simp: Builder_build_groups split: sum.splits simp del: Builder_build.simps)
  let ?xs = "zip (map conjunctive ss) fs"
  let ?gs = "and_groups (zip (map conjunctive ss) fs)"
  from build_values_length [OF vals] have len: "length fs = length ss" by simp
  have snd: "map snd (zip (map conjunctive ss) fs) = fs"
    using len by (simp add: map_snd_zip)
  have count: "length ?gs = (if ss = [] then 0 else Suc (or_joined ss))"
  proof (cases ss)
    case Nil
    then show ?thesis by simp
  next
    case (Cons s rest)
    with len obtain f fs' where fs: "fs = f # fs'" by (cases fs) auto
    from or_joined_zip [OF len] Cons fs
    show ?thesis by (simp add: and_groups_length del: and_groups.simps)
  qed
  have none: "dsl = bool_must fs" if "or_joined ss = 0"
  proof (cases ss)
    case Nil
    with len dsl show ?thesis by simp
  next
    case (Cons s rest)
    with len obtain f fs' where fs: "fs = f # fs'" by (cases fs) auto
    from that or_joined_zip [OF len] Cons fs
    have "filter is_or (zip (map conjunctive rest) fs') = []" by simp
    from and_groups_single [OF this, of "(conjunctive s, f)"] Cons fs len
    have "?gs = [fs]" by (simp add: map_snd_zip del: and_groups.simps)
    with dsl show ?thesis by simp
  qed
  have some: "dsl = bool_should (map bool_must ?gs)" if "0 < or_joined ss"
  proof -
    from that have "ss \<noteq> []" by (auto simp: or_joined_def)
    with that count have "2 \<le> length ?gs" by simp
    then obtain g1 g2 gs' where "?gs = g1 # g2 # gs'"
      by (cases ?gs; cases "tl ?gs") auto
    with dsl show ?thesis by simp
  qed
  have single: "\<exists>f. build_value st (svalue s) b = Inr (f, b') \<and> dsl = bool_must [f]"
    if "ss = [s]" for s
  proof -
    from vals that obtain f where f: "fs = [f]" "build_value st (svalue s) b = Inr (f, b')"
      using build_values_single [of st "svalue s" b fs b'] by auto
    from that have "or_joined ss = 0" by (simp add: or_joined_def)
    from none [OF this] f show ?thesis by simp
  qed
  have parts: "concat ?gs = fs" "[] \<notin> set ?gs"
    using and_groups_concat [of ?xs] and_groups_nonempty [of ?xs] snd by simp_all
  have shape: "keys (bool_must fs) = [''bool'']" "keys (get (bool_must fs) ''bool'') = [''must'']"
    "keys (bool_should ws) = [''bool'']" "keys (get (bool_should ws) ''bool'') = [''should'']"
    for ws
    by (simp_all add: bool_must_def bool_should_def)
  have c2: "length ?gs = Suc (or_joined ss)" if "0 < or_joined ss"
  proof -
    from that have "ss \<noteq> []" by (auto simp: or_joined_def)
    with count show ?thesis by simp
  qed
  show ?thesis
    using vals len none some single parts shape c2 parsed
    by (intro exI [of _ fs]) (auto simp del: Builder_build.simps build_value.simps)
qed


theorem tree_grouping_witness:
  "Builder_build \<lparr>allow = {}, deny = {}, require = [''/foo'', ''/baz'', ''/qux'']\<rparr>
     (Filter (statements example_filter)) new_Builder =
   Inr (JObj [(''bool'', JObj [(''should'', JArr
          [JObj [(''bool'', JObj [(''must'', JArr
             [JObj [(''term'', JObj [(''foo'', JNum 42)])]])])],
           JObj [(''bool'', JObj [(''must'', JArr
             [JObj [(''bool'', JObj [(''must_not'', JObj [(''term'', JObj [(''foo'', JNum 1)])])])],
              JObj [(''term'', JObj [(''bar.2'', JNum 2)])]])])]])])],
        \<lparr>fieldsSet = {''/foo'', ''/bar''}, fieldsArr = [''/foo'', ''/bar'']\<rparr>) \<and>
   or_joined (statements example_filter) = 1 \<and>
   (\<exists>fs. length fs = 3 \<and>
      length (and_groups (zip (map conjunctive (statements example_filter)) fs)) = 2 \<and>
      JObj [(''bool'', JObj [(''should'', JArr
          [JObj [(''bool'', JObj [(''must'', JArr
             [JObj [(''term'', JObj [(''foo'', JNum 42)])]])])],
           JObj [(''bool'', JObj [(''must'', JArr
             [JObj [(''bool'', JObj [(''must_not'', JObj [(''term'', JObj [(''foo'', JNum 1)])])])],
              JObj [(''term'', JObj [(''bar.2'', JNum 2)])]])])]])])] =
      bool_should (map bool_must
        (and_groups (zip (map conjunctive (statements example_filter)) fs))))"
proof -
  have walk: "Builder_build \<lparr>allow = {}, deny = {}, require = [''/foo'', ''/baz'', ''/qux'']\<rparr>
     (Filter (statements example_filter)) new_Builder =
   Inr (JObj [(''bool'', JObj [(''should'', JArr
          [JObj [(''bool'', JObj [(''must'', JArr
             [JObj [(''term'', JObj [(''foo'', JNum 42)])]])])],
           JObj [(''bool'', JObj [(''must'', JArr
             [JObj [(''bool'', JObj [(''must_not'', JObj [(''term'', JObj [(''foo'', JNum 1)])])])],
              JObj [(''term'', JObj [(''bar.2'', JNum 2)])]])])]])])],
        \<lparr>fieldsSet = {''/foo'', ''/bar''}, fieldsArr = [''/foo'', ''/bar'']\<rparr>)"
    using walk_example by (simp del: Builder_build.simps)
  have joined: "or_joined (statements example_filter) = 1"
    by (simp add: example_filter_def or_joined_def)
  have three: "length (statements example_filter) = 3"
    by (simp add: example_filter_def)
  from tree_grouping [OF walk] walk joined three show ?thesis
    by (auto simp del: Builder_build.simps)
qed

end
